theory Spec2Isabelle
  imports Complex_Main "HOL-Library.Char_ord" "HOL-Library.List_Lexorder"
begin

section \<open>Arrays\<close>

text \<open>
  A one-dimensional numeric array is a list of reals, a two-dimensional one a list of rows.
  Floating-point rounding is not modelled: every entry is a real number, and the tolerances
  of \<^verbatim>\<open>numpy.isclose\<close> and \<^verbatim>\<open>numpy.allclose\<close> (relative \<open>1e-5\<close>, absolute \<open>1e-8\<close>)
  are kept as written.
\<close>

type_synonym vec = "real list"
type_synonym matrix = "real list list"

definition rtol :: real where
  "rtol = 1 / 100000"

definition atol :: real where
  "atol = 1 / 100000000"

definition np_isclose :: "real \<Rightarrow> real \<Rightarrow> bool" where
  "np_isclose a b = (\<bar>a - b\<bar> \<le> atol + rtol * \<bar>b\<bar>)"

definition np_allclose :: "vec \<Rightarrow> vec \<Rightarrow> bool" where
  "np_allclose a b = list_all2 np_isclose a b"

definition np_allclose2 :: "matrix \<Rightarrow> matrix \<Rightarrow> bool" where
  "np_allclose2 a b = list_all2 np_allclose a b"

definition np_ones :: "nat \<Rightarrow> vec" where
  "np_ones n = replicate n 1"

definition np_ones2 :: "nat \<Rightarrow> nat \<Rightarrow> matrix" where
  "np_ones2 r c = replicate r (replicate c 1)"

definition np_zeros2 :: "nat \<Rightarrow> nat \<Rightarrow> matrix" where
  "np_zeros2 r c = replicate r (replicate c 0)"

definition vec_div_scalar :: "vec \<Rightarrow> real \<Rightarrow> vec" where
  "vec_div_scalar v c = map (\<lambda>x. x / c) v"

definition mat_div_scalar :: "matrix \<Rightarrow> real \<Rightarrow> matrix" where
  "mat_div_scalar m c = map (\<lambda>row. vec_div_scalar row c) m"

definition mat_add :: "matrix \<Rightarrow> matrix \<Rightarrow> matrix" where
  "mat_add a b = map2 (map2 (+)) a b"

definition mat_div :: "matrix \<Rightarrow> matrix \<Rightarrow> matrix" where
  "mat_div a b = map2 (map2 (/)) a b"

text \<open>\<^verbatim>\<open>numpy.arange(n, 0, -1)\<close>: the values \<open>n, n - 1, ..., 1\<close>.\<close>

definition np_arange_down :: "nat \<Rightarrow> vec" where
  "np_arange_down n = map (\<lambda>i. real (n - i)) [0..<n]"

text \<open>\<^verbatim>\<open>numpy.tile(v, (n, 1))\<close>: \<open>n\<close> copies of the row \<open>v\<close>.\<close>

definition np_tile_rows :: "vec \<Rightarrow> nat \<Rightarrow> matrix" where
  "np_tile_rows v n = replicate n v"

definition ncols :: "matrix \<Rightarrow> nat" where
  "ncols m = (case m of [] \<Rightarrow> 0 | r # _ \<Rightarrow> length r)"

text \<open>The transpose \<^verbatim>\<open>m.T\<close> of a rectangular array.\<close>

definition np_T :: "matrix \<Rightarrow> matrix" where
  "np_T m = map (\<lambda>j. map (\<lambda>row. row ! j) m) [0..<ncols m]"

text \<open>\<^verbatim>\<open>numpy.triu(m)\<close> keeps the entries with \<open>i \<le> j\<close> and zeroes the others.\<close>

definition np_triu :: "matrix \<Rightarrow> matrix" where
  "np_triu m = map (\<lambda>(i, row). map (\<lambda>(j, x). if i \<le> j then x else 0) (enumerate 0 row))
                   (enumerate 0 m)"

text \<open>
  \<^verbatim>\<open>numpy.tril(v, k=-1)\<close> on a one-dimensional \<open>v\<close> of length \<open>n\<close>: the vector is broadcast
  to the rows of an \<open>n \<times> n\<close> array, of which the entries with \<open>j < i\<close> are kept.
\<close>

definition np_tril_below_1d :: "vec \<Rightarrow> matrix" where
  "np_tril_below_1d v = map (\<lambda>i. map (\<lambda>(j, x). if j < i then x else 0) (enumerate 0 v))
                            [0..<length v]"

text \<open>\<^verbatim>\<open>numpy.diag(m, k)\<close> on a two-dimensional \<open>m\<close>: the \<open>k\<close>-th superdiagonal.\<close>

definition np_diag_of :: "matrix \<Rightarrow> nat \<Rightarrow> vec" where
  "np_diag_of m k = map (\<lambda>i. m ! i ! (i + k)) [0..<min (length m) (ncols m - k)]"

text \<open>\<^verbatim>\<open>numpy.diag(v, k)\<close> on a one-dimensional \<open>v\<close>: the square array of size
  \<open>len(v) + k\<close> with \<open>v\<close> on the \<open>k\<close>-th superdiagonal.\<close>

definition np_diag_from :: "vec \<Rightarrow> nat \<Rightarrow> matrix" where
  "np_diag_from v k =
     map (\<lambda>i. map (\<lambda>j. if j = i + k \<and> i < length v then v ! i else 0) [0..<length v + k])
         [0..<length v + k]"

text \<open>The slice assignment \<^verbatim>\<open>row[i:j] = v\<close>, for \<open>len(v) = j - i\<close> and \<open>j \<le> len(row)\<close>.\<close>

definition set_slice :: "vec \<Rightarrow> nat \<Rightarrow> nat \<Rightarrow> vec \<Rightarrow> vec" where
  "set_slice row i j v = take i row @ v @ drop j row"

text \<open>\<^verbatim>\<open>m.shape == (r, c)\<close>.\<close>

definition has_shape :: "matrix \<Rightarrow> nat \<Rightarrow> nat \<Rightarrow> bool" where
  "has_shape m r c = (length m = r \<and> list_all (\<lambda>row. length row = c) m)"

definition row_sums :: "matrix \<Rightarrow> vec" where
  "row_sums m = map sum_list m"

section \<open>Topologies\<close>

datatype topology = Ergodic | LeftRight | Linear

text \<open>The exceptions raised by the modelled code, one constructor for each raise.\<close>

datatype error =
    ValueError_transition_shape
  | ValueError_transition_row_sums
  | ValueError_not_upper_triangular
  | ValueError_not_linear
  | ValueError_kth_out_of_bounds
  | ValueError_need_at_least_one_array
  | ValueError_number_sections
  | ValueError_unseen_labels
  | ValueError_number_of_jobs
  | ValueError_number_of_neighbors
  | ValueError_radius
  | ValueError_empty_sequence
  | ValueError_sequences_and_labels
  | RuntimeError_no_models
  | RuntimeError_not_fitted
  | AssertionError_prior
  | ZeroDivisionError
  | IndexError
  | KeyError

datatype warning = Warn_zero_probabilities

text \<open>\<^verbatim>\<open>_Topology.uniform_start_probs\<close>\<close>

definition uniform_start_probs :: "nat \<Rightarrow> vec" where
  "uniform_start_probs n_states = vec_div_scalar (np_ones n_states) (real n_states)"

text \<open>\<^verbatim>\<open>uniform_transitions\<close> of the three topology classes.\<close>

definition upper_ones :: "nat \<Rightarrow> matrix" where
  "upper_ones n = np_triu (np_ones2 n n)"

definition upper_divisors :: "nat \<Rightarrow> matrix" where
  "upper_divisors n = np_triu (np_T (np_tile_rows (np_arange_down n) n))"

definition lower_ones :: "nat \<Rightarrow> matrix" where
  "lower_ones n = np_tril_below_1d (np_ones n)"

definition linear_uniform_row :: "nat \<Rightarrow> nat \<times> vec \<Rightarrow> vec" where
  "linear_uniform_row n = (\<lambda>(i, row).
     let size = min 2 (n - i)
     in set_slice row i (i + size) (vec_div_scalar (np_ones size) (real size)))"

fun uniform_transitions :: "topology \<Rightarrow> nat \<Rightarrow> matrix" where
  "uniform_transitions Ergodic n = mat_div_scalar (np_ones2 n n) (real n)"
| "uniform_transitions LeftRight n =
     mat_div (upper_ones n) (mat_add (upper_divisors n) (lower_ones n))"
| "uniform_transitions Linear n =
     map (linear_uniform_row n) (enumerate 0 (np_zeros2 n n))"

text \<open>
  \<^verbatim>\<open>random_transitions\<close>. The random state is threaded explicitly; \<open>dirichlet\<close> stands for
  \<^verbatim>\<open>RandomState.dirichlet\<close>: from a state and a vector of concentrations it gives one
  sample and the next state. With \<^verbatim>\<open>size=n\<close> the sampler is run \<open>n\<close> times, one row each.
\<close>

type_synonym 'g sampler = "'g \<Rightarrow> vec \<Rightarrow> vec \<times> 'g"

fun dirichlet_rows :: "'g sampler \<Rightarrow> vec \<Rightarrow> nat \<Rightarrow> 'g \<Rightarrow> matrix \<times> 'g" where
  "dirichlet_rows dirichlet alpha 0 g = ([], g)"
| "dirichlet_rows dirichlet alpha (Suc m) g =
     (let (s, g') = dirichlet g alpha;
          (rows, g'') = dirichlet_rows dirichlet alpha m g'
      in (s # rows, g''))"

fun left_right_random_loop ::
  "'g sampler \<Rightarrow> nat \<Rightarrow> (nat \<times> vec) list \<Rightarrow> 'g \<Rightarrow> matrix \<times> 'g" where
  "left_right_random_loop dirichlet n [] g = ([], g)"
| "left_right_random_loop dirichlet n ((i, row) # rest) g =
     (let (s, g') = dirichlet g (np_ones (n - i));
          (rows, g'') = left_right_random_loop dirichlet n rest g'
      in (set_slice row i (length row) s # rows, g''))"

fun linear_random_loop ::
  "'g sampler \<Rightarrow> nat \<Rightarrow> (nat \<times> vec) list \<Rightarrow> 'g \<Rightarrow> matrix \<times> 'g" where
  "linear_random_loop dirichlet n [] g = ([], g)"
| "linear_random_loop dirichlet n ((i, row) # rest) g =
     (let size = min 2 (n - i);
          (s, g') = dirichlet g (np_ones size);
          (rows, g'') = linear_random_loop dirichlet n rest g'
      in (set_slice row i (i + size) s # rows, g''))"

fun random_transitions :: "'g sampler \<Rightarrow> topology \<Rightarrow> nat \<Rightarrow> 'g \<Rightarrow> matrix \<times> 'g" where
  "random_transitions dirichlet Ergodic n g = dirichlet_rows dirichlet (np_ones n) n g"
| "random_transitions dirichlet LeftRight n g =
     left_right_random_loop dirichlet n (enumerate 0 (np_zeros2 n n)) g"
| "random_transitions dirichlet Linear n g =
     linear_random_loop dirichlet n (enumerate 0 (np_zeros2 n n)) g"

text \<open>
  What the sampler is relied on for: a sample has as many entries as there are
  concentrations, none negative, and their sum is one up to the tolerance of
  \<^verbatim>\<open>numpy.isclose\<close>.
\<close>

definition dirichlet_ok :: "'g sampler \<Rightarrow> bool" where
  "dirichlet_ok dirichlet = (\<forall>g alpha. alpha \<noteq> [] \<longrightarrow>
     length (fst (dirichlet g alpha)) = length alpha
     \<and> list_all (\<lambda>x. 0 \<le> x) (fst (dirichlet g alpha))
     \<and> np_isclose (sum_list (fst (dirichlet g alpha))) 1)"

text \<open>A sampler that always returns the centre of the simplex, with a counter as its state.\<close>

definition centre_sampler :: "nat sampler" where
  "centre_sampler g alpha = (map (\<lambda>_. 1 / real (length alpha)) alpha, Suc g)"

text \<open>
  \<^verbatim>\<open>check_transitions\<close>. The result is the exception raised, or the warnings issued
  together with the array returned. \<^verbatim>\<open>_LinearTopology\<close> derives from
  \<^verbatim>\<open>_LeftRightTopology\<close>, so its \<^verbatim>\<open>super().check_transitions\<close> is the left-right check.
\<close>

definition Topology_check_transitions :: "nat \<Rightarrow> matrix \<Rightarrow> error + matrix" where
  "Topology_check_transitions n t =
     (if \<not> has_shape t n n then Inl ValueError_transition_shape
      else if \<not> np_allclose (row_sums t) (np_ones n) then Inl ValueError_transition_row_sums
      else Inr t)"

definition Ergodic_check_transitions :: "nat \<Rightarrow> matrix \<Rightarrow> error + warning list \<times> matrix" where
  "Ergodic_check_transitions n t =
     (case Topology_check_transitions n t of
        Inl e \<Rightarrow> Inl e
      | Inr _ \<Rightarrow>
          if \<not> list_all (list_all (\<lambda>x. 0 < x)) t then Inr ([Warn_zero_probabilities], t)
          else Inr ([], t))"

definition LeftRight_check_transitions :: "nat \<Rightarrow> matrix \<Rightarrow> error + warning list \<times> matrix" where
  "LeftRight_check_transitions n t =
     (case Topology_check_transitions n t of
        Inl e \<Rightarrow> Inl e
      | Inr _ \<Rightarrow>
          if \<not> np_allclose2 t (np_triu t) then Inl ValueError_not_upper_triangular
          else Inr ([], t))"

definition Linear_check_transitions :: "nat \<Rightarrow> matrix \<Rightarrow> error + warning list \<times> matrix" where
  "Linear_check_transitions n t =
     (case LeftRight_check_transitions n t of
        Inl e \<Rightarrow> Inl e
      | Inr _ \<Rightarrow>
          if \<not> np_allclose2 t (mat_add (np_diag_from (np_diag_of t 0) 0)
                                         (np_diag_from (np_diag_of t 1) 1))
          then Inl ValueError_not_linear
          else Inr ([], t))"

fun check_transitions :: "topology \<Rightarrow> nat \<Rightarrow> matrix \<Rightarrow> error + warning list \<times> matrix" where
  "check_transitions Ergodic n t = Ergodic_check_transitions n t"
| "check_transitions LeftRight n t = LeftRight_check_transitions n t"
| "check_transitions Linear n t = Linear_check_transitions n t"

text \<open>
  The zero-pattern of a topology, as the data model words it: a left-right matrix is
  upper-triangular, a linear one has entries on the diagonal and the first superdiagonal
  only, an ergodic one is unconstrained. \<open>outside_pattern kind i j\<close> says that position
  \<open>(i, j)\<close> has to be zero.
\<close>

fun outside_pattern :: "topology \<Rightarrow> nat \<Rightarrow> nat \<Rightarrow> bool" where
  "outside_pattern Ergodic i j = False"
| "outside_pattern LeftRight i j = (j < i)"
| "outside_pattern Linear i j = (j < i \<or> Suc i < j)"

definition entry_exists :: "(nat \<Rightarrow> nat \<Rightarrow> real \<Rightarrow> bool) \<Rightarrow> matrix \<Rightarrow> bool" where
  "entry_exists P t =
     list_ex (\<lambda>(i, row). list_ex (\<lambda>(j, x). P i j x) (enumerate 0 row)) (enumerate 0 t)"

text \<open>Some entry outside the pattern is not exactly zero.\<close>

definition zero_pattern_violated :: "topology \<Rightarrow> matrix \<Rightarrow> bool" where
  "zero_pattern_violated kind t = entry_exists (\<lambda>i j x. outside_pattern kind i j \<and> x \<noteq> 0) t"

text \<open>Some entry outside the pattern exceeds the absolute tolerance.\<close>

definition zero_pattern_exceeded :: "topology \<Rightarrow> matrix \<Rightarrow> bool" where
  "zero_pattern_exceeded kind t =
     entry_exists (\<lambda>i j x. outside_pattern kind i j \<and> atol < \<bar>x\<bar>) t"

text \<open>Every row sums to one within the tolerance.\<close>

definition rows_sum_to_one :: "matrix \<Rightarrow> bool" where
  "rows_sum_to_one t = list_all (\<lambda>row. np_isclose (sum_list row) 1) t"

definition has_zero_entry :: "matrix \<Rightarrow> bool" where
  "has_zero_entry t = entry_exists (\<lambda>i j x. x = 0) t"

text \<open>The table with entry \<open>f i j\<close> at row \<open>i\<close> and column \<open>j\<close>.\<close>

definition tab :: "nat \<Rightarrow> nat \<Rightarrow> (nat \<Rightarrow> nat \<Rightarrow> real) \<Rightarrow> matrix" where
  "tab r c f = map (\<lambda>i. map (\<lambda>j. f i j) [0..<c]) [0..<r]"

section \<open>Shared helpers\<close>

text \<open>Sequencing of computations that may raise: the first exception wins.\<close>

definition and_then :: "error + 'a \<Rightarrow> ('a \<Rightarrow> error + 'b) \<Rightarrow> error + 'b" where
  "and_then r f = (case r of Inl e \<Rightarrow> Inl e | Inr x \<Rightarrow> f x)"

fun map_err :: "('a \<Rightarrow> error + 'b) \<Rightarrow> 'a list \<Rightarrow> error + 'b list" where
  "map_err f [] = Inr []"
| "map_err f (x # xs) =
     and_then (f x) (\<lambda>y. and_then (map_err f xs) (\<lambda>ys. Inr (y # ys)))"

text \<open>Indexing a Python list or array with a non-negative index.\<close>

definition py_nth :: "'a list \<Rightarrow> nat \<Rightarrow> error + 'a" where
  "py_nth xs i = (if i < length xs then Inr (xs ! i) else Inl IndexError)"

text \<open>A dictionary built from key-value pairs in order: a later pair replaces an earlier one.\<close>

definition dict_of :: "('k \<times> 'v) list \<Rightarrow> ('k \<rightharpoonup> 'v)" where
  "dict_of kvs = map_of (rev kvs)"

definition dict_get :: "('k \<rightharpoonup> 'v) \<Rightarrow> 'k \<Rightarrow> error + 'v" where
  "dict_get d key = (case d key of None \<Rightarrow> Inl KeyError | Some v \<Rightarrow> Inr v)"

text \<open>
  \<^verbatim>\<open>numpy.array_split(xs, n)\<close>: \<open>n\<close> contiguous sections, the first \<open>len(xs) mod n\<close> of
  size \<open>len(xs) div n + 1\<close> and the others of size \<open>len(xs) div n\<close>; \<open>n = 0\<close> raises.
\<close>

fun split_sizes :: "nat list \<Rightarrow> 'a list \<Rightarrow> 'a list list" where
  "split_sizes [] xs = []"
| "split_sizes (s # ss) xs = take s xs # split_sizes ss (drop s xs)"

definition section_sizes :: "nat \<Rightarrow> nat \<Rightarrow> nat list" where
  "section_sizes len n =
     replicate (len mod n) (len div n + 1) @ replicate (n - len mod n) (len div n)"

definition np_array_split :: "'a list \<Rightarrow> nat \<Rightarrow> error + 'a list list" where
  "np_array_split xs n =
     (if n = 0 then Inl ValueError_number_sections
      else Inr (split_sizes (section_sizes (length xs) n) xs))"

text \<open>The check \<^verbatim>\<open>lambda x: x == -1 or x > 0\<close> on \<^verbatim>\<open>n_jobs\<close>.\<close>

definition check_n_jobs :: "int \<Rightarrow> error + unit" where
  "check_n_jobs n_jobs =
     (if n_jobs = - 1 \<or> 0 < n_jobs then Inr () else Inl ValueError_number_of_jobs)"

section \<open>The ensemble classifier\<close>

text \<open>
  A score is a log-probability: a real number or minus infinity (the logarithm of a zero
  prior). The log-likelihood that a model gives to a sequence is delegated; here it is a
  finite real number.
\<close>

datatype score = NegInf | Fin real

fun score_add :: "real \<Rightarrow> score \<Rightarrow> score" where
  "score_add a NegInf = NegInf"
| "score_add a (Fin b) = Fin (a + b)"

fun score_less :: "score \<Rightarrow> score \<Rightarrow> bool" where
  "score_less NegInf NegInf = False"
| "score_less NegInf (Fin b) = True"
| "score_less (Fin a) NegInf = False"
| "score_less (Fin a) (Fin b) = (a < b)"

text \<open>\<^verbatim>\<open>numpy.log\<close> on a probability \<open>0 \<le> p\<close>.\<close>

definition np_log :: "real \<Rightarrow> score" where
  "np_log p = (if p = 0 then NegInf else Fin (ln p))"

text \<open>\<^verbatim>\<open>numpy.argmax\<close>: the first index of a largest entry.\<close>

fun argmax_from :: "score list \<Rightarrow> nat \<Rightarrow> nat \<Rightarrow> score \<Rightarrow> nat" where
  "argmax_from [] i best v = best"
| "argmax_from (x # xs) i best v =
     (if score_less v x then argmax_from xs (Suc i) i x else argmax_from xs (Suc i) best v)"

definition np_argmax :: "score list \<Rightarrow> error + nat" where
  "np_argmax xs = (case xs of [] \<Rightarrow> Inl ValueError_empty_sequence
                   | x # rest \<Rightarrow> Inr (argmax_from rest 1 0 x))"

text \<open>
  One fitted model of the ensemble: its label, the number of sequences it was trained on,
  and its log-likelihood function \<^verbatim>\<open>forward\<close>.
\<close>

record ('o, 'l) GMMHMM =
  label :: 'l
  n_seqs :: nat
  forward :: "'o \<Rightarrow> real"

text \<open>
  \<^verbatim>\<open>sklearn.preprocessing.LabelEncoder\<close>: \<^verbatim>\<open>fit\<close> keeps the sorted distinct labels,
  \<^verbatim>\<open>transform\<close> gives the position of a label among them, \<^verbatim>\<open>inverse_transform\<close> the
  label at a position.
\<close>

definition LabelEncoder_fit :: "'l::linorder list \<Rightarrow> 'l list" where
  "LabelEncoder_fit ys = sort (remdups ys)"

fun index_of :: "'a list \<Rightarrow> 'a \<Rightarrow> nat option" where
  "index_of [] y = None"
| "index_of (x # xs) y = (if x = y then Some 0 else map_option Suc (index_of xs y))"

definition transform :: "'l list \<Rightarrow> 'l \<Rightarrow> error + nat" where
  "transform classes y =
     (case index_of classes y of None \<Rightarrow> Inl ValueError_unseen_labels | Some i \<Rightarrow> Inr i)"

definition inverse_transform :: "'l list \<Rightarrow> nat list \<Rightarrow> error + 'l list" where
  "inverse_transform classes idx =
     (if list_all (\<lambda>i. i < length classes) idx then Inr (map (\<lambda>i. classes ! i) idx)
      else Inl ValueError_unseen_labels)"

text \<open>The fitted classifier: \<^verbatim>\<open>_models_\<close> and the classes of \<^verbatim>\<open>_encoder_\<close>.\<close>

record ('o, 'l) HMMClassifier =
  models :: "('o, 'l) GMMHMM list"
  classes :: "'l list"

definition HMMClassifier_fit ::
  "('o, 'l::linorder) GMMHMM list \<Rightarrow> error + ('o, 'l) HMMClassifier" where
  "HMMClassifier_fit ms =
     (if 0 < length ms
      then Inr \<lparr>models = ms, classes = LabelEncoder_fit (map label ms)\<rparr>
      else Inl RuntimeError_no_models)"

datatype prior = Frequency | Uniform | Explicit "real list"

text \<open>The assertions of \<^verbatim>\<open>predict\<close> on a prior given as numbers.\<close>

definition check_prior :: "('o, 'l) HMMClassifier \<Rightarrow> prior \<Rightarrow> error + unit" where
  "check_prior clf prior =
     (case prior of
        Explicit p \<Rightarrow>
          if length p = length (models clf) \<and> list_all (\<lambda>x. 0 \<le> x \<and> x \<le> 1) p
             \<and> np_isclose (sum_list p) 1
          then Inr () else Inl AssertionError_prior
      | _ \<Rightarrow> Inr ())"

text \<open>\<^verbatim>\<open>_get_priors\<close>\<close>

definition get_priors ::
  "('o, 'l) HMMClassifier \<Rightarrow> prior \<Rightarrow> error + ('l \<rightharpoonup> real)" where
  "get_priors clf prior =
     (case prior of
        Frequency \<Rightarrow>
          (let total_seqs = sum_list (map n_seqs (models clf))
           in and_then
                (map_err (\<lambda>model. if total_seqs = 0 then Inl ZeroDivisionError
                                   else Inr (label model, real (n_seqs model) / real total_seqs))
                   (models clf))
                (\<lambda>kvs. Inr (dict_of kvs)))
      | Uniform \<Rightarrow>
          Inr (dict_of (map (\<lambda>model. (label model, 1 / real (length (models clf))))
                          (models clf)))
      | Explicit p \<Rightarrow>
          and_then
            (map_err (\<lambda>model. and_then (transform (classes clf) (label model))
                                 (\<lambda>i. and_then (py_nth p i) (\<lambda>v. Inr (label model, v))))
               (models clf))
            (\<lambda>kvs. Inr (dict_of kvs)))"

text \<open>\<^verbatim>\<open>_predict\<close>: one score for each model, in the order of \<^verbatim>\<open>_models_\<close>.\<close>

definition predict_scores ::
  "('o, 'l) HMMClassifier \<Rightarrow> 'o \<Rightarrow> ('l \<rightharpoonup> real) \<Rightarrow> error + score list" where
  "predict_scores clf x priors =
     map_err (\<lambda>model. and_then (dict_get priors (label model))
                          (\<lambda>p. Inr (score_add (forward model x) (np_log p))))
       (models clf)"

text \<open>\<^verbatim>\<open>_chunk_predict\<close>: \<^verbatim>\<open>numpy.stack\<close> raises on an empty list.\<close>

definition chunk_predict ::
  "('o, 'l) HMMClassifier \<Rightarrow> 'o list \<Rightarrow> ('l \<rightharpoonup> real) \<Rightarrow> error + score list list" where
  "chunk_predict clf chunk priors =
     and_then (map_err (\<lambda>x. predict_scores clf x priors) chunk)
       (\<lambda>rows. if rows = [] then Inl ValueError_need_at_least_one_array else Inr rows)"

text \<open>
  \<^verbatim>\<open>_output\<close>. A label is returned as its index or inverse-transformed; the scores are
  returned with the labels if \<^verbatim>\<open>return_scores\<close> is set.
\<close>

datatype 'l label_out = Encoded nat | Decoded 'l

datatype ('a, 's) returned = Labels 'a | Labels_Scores 'a 's

definition output_batch ::
  "('o, 'l) HMMClassifier \<Rightarrow> nat list \<Rightarrow> score list list \<Rightarrow> bool \<Rightarrow> bool
     \<Rightarrow> error + ('l label_out list, score list list) returned" where
  "output_batch clf idx scores return_scores original_labels =
     and_then
       (if \<not> original_labels then Inr (map Encoded idx)
        else and_then (inverse_transform (classes clf) idx) (\<lambda>ls. Inr (map Decoded ls)))
       (\<lambda>labels. Inr (if return_scores then Labels_Scores labels scores else Labels labels))"

definition output_single ::
  "('o, 'l) HMMClassifier \<Rightarrow> nat \<Rightarrow> score list \<Rightarrow> bool \<Rightarrow> bool
     \<Rightarrow> error + ('l label_out, score list) returned" where
  "output_single clf idx scores return_scores original_labels =
     and_then
       (if \<not> original_labels then Inr (Encoded idx)
        else and_then (inverse_transform (classes clf) [idx]) (\<lambda>ls. py_nth (map Decoded ls) 0))
       (\<lambda>labels. Inr (if return_scores then Labels_Scores labels scores else Labels labels))"

text \<open>
  \<^verbatim>\<open>predict\<close> on one sequence and on a list of sequences (the two branches of its
  \<^verbatim>\<open>isinstance\<close> test). \<open>cpu_count\<close> is the number of cores of the machine. Progress bars
  and warnings do not change the result and are left out.
\<close>

definition HMMClassifier_predict_single ::
  "('o, 'l) HMMClassifier \<Rightarrow> 'o \<Rightarrow> prior \<Rightarrow> bool \<Rightarrow> bool \<Rightarrow> int
     \<Rightarrow> error + ('l label_out, score list) returned" where
  "HMMClassifier_predict_single clf x prior return_scores original_labels n_jobs =
     and_then (check_prior clf prior) (\<lambda>_.
     and_then (check_n_jobs n_jobs) (\<lambda>_.
     and_then (get_priors clf prior) (\<lambda>priors.
     and_then (predict_scores clf x priors) (\<lambda>scores.
     and_then (np_argmax scores) (\<lambda>labels.
       output_single clf labels scores return_scores original_labels)))))"

text \<open>
  The scores of a batch, for the clamped number of jobs \<open>n\<close>: the whole list as one chunk,
  or \<open>n\<close> chunks scored by the workers and stacked in the order of the chunks. A failing
  worker fails the call.
\<close>

definition batch_scores ::
  "('o, 'l) HMMClassifier \<Rightarrow> 'o list \<Rightarrow> ('l \<rightharpoonup> real) \<Rightarrow> nat \<Rightarrow> error + score list list" where
  "batch_scores clf X priors n =
     (if n = 1 then chunk_predict clf X priors
      else and_then (np_array_split X n) (\<lambda>chunks.
           and_then (map_err (\<lambda>chunk. chunk_predict clf chunk priors) chunks) (\<lambda>parts.
             Inr (concat parts))))"

definition HMMClassifier_predict ::
  "nat \<Rightarrow> ('o, 'l) HMMClassifier \<Rightarrow> 'o list \<Rightarrow> prior \<Rightarrow> bool \<Rightarrow> bool \<Rightarrow> int
     \<Rightarrow> error + ('l label_out list, score list list) returned" where
  "HMMClassifier_predict cpu_count clf X prior return_scores original_labels n_jobs =
     and_then (check_prior clf prior) (\<lambda>_.
     and_then (check_n_jobs n_jobs) (\<lambda>_.
     let n = min (if n_jobs = - 1 then cpu_count else nat n_jobs) (length X)
     in and_then (get_priors clf prior) (\<lambda>priors.
        and_then (batch_scores clf X priors n) (\<lambda>scores.
        and_then (map_err np_argmax scores) (\<lambda>labels.
          output_batch clf labels scores return_scores original_labels)))))"

text \<open>
  The score that the ensemble gives to a class, and whether a class has the best score:
  the vocabulary in which the decision rule is stated.
\<close>

definition class_score ::
  "('o, 'l) HMMClassifier \<Rightarrow> ('l \<rightharpoonup> real) \<Rightarrow> 'o \<Rightarrow> 'l \<Rightarrow> score option" where
  "class_score clf priors x c =
     (case filter (\<lambda>model. label model = c) (models clf) of
        [] \<Rightarrow> None
      | model # _ \<Rightarrow> map_option (\<lambda>p. score_add (forward model x) (np_log p)) (priors c))"

section \<open>The nearest-neighbour classifier\<close>

text \<open>
  The classifier holds \<^verbatim>\<open>_k\<close>, \<^verbatim>\<open>_radius\<close> and, once fitted, the reference sequences
  \<^verbatim>\<open>_X\<close> with their labels \<^verbatim>\<open>_y\<close>.
\<close>

record ('o, 'l) DTWKNN =
  knn_k :: nat
  knn_radius :: nat
  knn_data :: "('o list \<times> 'l list) option"

text \<open>
  What the classifier takes from outside: the distance \<^verbatim>\<open>fastdtw\<close> (for a radius and the
  chosen metric), the selection algorithm behind \<^verbatim>\<open>numpy.argpartition\<close>, the generator
  behind \<^verbatim>\<open>random.choice\<close> (a draw below a bound, from a state), and the number of cores.
\<close>

record ('o, 'g) knn_env =
  env_fastdtw :: "nat \<Rightarrow> 'o \<Rightarrow> 'o \<Rightarrow> real"
  env_argpartition :: "real list \<Rightarrow> nat \<Rightarrow> nat list"
  env_randbelow :: "'g \<Rightarrow> nat \<Rightarrow> nat \<times> 'g"
  env_cpu_count :: nat

text \<open>\<^verbatim>\<open>__init__\<close>\<close>

definition DTWKNN_init :: "int \<Rightarrow> int \<Rightarrow> error + ('o, 'l) DTWKNN" where
  "DTWKNN_init k radius =
     (if \<not> 0 < k then Inl ValueError_number_of_neighbors
      else if \<not> 0 < radius then Inl ValueError_radius
      else Inr \<lparr>knn_k = nat k, knn_radius = nat radius, knn_data = None\<rparr>)"

text \<open>
  Modelled from the spec: the validator \<^verbatim>\<open>observation_sequences_and_labels\<close> is not among
  the sources. The data model says of a labelled dataset that the counts of sequences and
  labels match; the validator rejects a dataset whose counts differ and returns the others
  as they are.
\<close>

definition observation_sequences_and_labels ::
  "'o list \<Rightarrow> 'l list \<Rightarrow> error + 'o list \<times> 'l list" where
  "observation_sequences_and_labels X y =
     (if length X = length y then Inr (X, y) else Inl ValueError_sequences_and_labels)"

text \<open>\<^verbatim>\<open>fit\<close>\<close>

definition DTWKNN_fit ::
  "('o, 'l) DTWKNN \<Rightarrow> 'o list \<Rightarrow> 'l list \<Rightarrow> error + ('o, 'l) DTWKNN" where
  "DTWKNN_fit clf X y =
     and_then (observation_sequences_and_labels X y) (\<lambda>data. Inr (clf\<lparr>knn_data := Some data\<rparr>))"

text \<open>
  \<^verbatim>\<open>numpy.argpartition(a, kth)\<close> raises unless \<open>kth < len(a)\<close>. Otherwise it returns a
  permutation \<open>p\<close> of the indices with the entry at position \<open>kth\<close> in its sorted place:
  no entry before it is larger, none after it is smaller. \<open>is_partition\<close> is this contract.
\<close>

definition np_argpartition ::
  "(real list \<Rightarrow> nat \<Rightarrow> nat list) \<Rightarrow> real list \<Rightarrow> nat \<Rightarrow> error + nat list" where
  "np_argpartition select a kth =
     (if kth < length a then Inr (select a kth) else Inl ValueError_kth_out_of_bounds)"

definition is_partition :: "real list \<Rightarrow> nat \<Rightarrow> nat list \<Rightarrow> bool" where
  "is_partition a kth p =
     (sort p = [0..<length a]
      \<and> list_all (\<lambda>i. a ! i \<le> a ! (p ! kth)) (take kth p)
      \<and> list_all (\<lambda>i. a ! (p ! kth) \<le> a ! i) (drop kth p))"

definition argpartition_ok :: "(real list \<Rightarrow> nat \<Rightarrow> nat list) \<Rightarrow> bool" where
  "argpartition_ok select = (\<forall>a kth. kth < length a \<longrightarrow> is_partition a kth (select a kth))"

text \<open>A selection algorithm that meets the contract: the indices, stably sorted by entry.\<close>

definition argsort_select :: "real list \<Rightarrow> nat \<Rightarrow> nat list" where
  "argsort_select a kth = sort_key (\<lambda>i. a ! i) [0..<length a]"

text \<open>
  \<^verbatim>\<open>collections.Counter\<close> of a list: the distinct elements in the order of their first
  occurrence, each with its number of occurrences.
\<close>

fun counter_add :: "('l \<times> nat) list \<Rightarrow> 'l \<Rightarrow> ('l \<times> nat) list" where
  "counter_add [] x = [(x, 1)]"
| "counter_add ((y, c) # rest) x =
     (if y = x then (y, Suc c) # rest else (y, c) # counter_add rest x)"

definition Counter :: "'l list \<Rightarrow> ('l \<times> nat) list" where
  "Counter xs = foldl counter_add [] xs"

text \<open>\<^verbatim>\<open>max\<close> of a sequence, which raises on an empty one.\<close>

definition py_max :: "nat list \<Rightarrow> error + nat" where
  "py_max xs = (case xs of [] \<Rightarrow> Inl ValueError_empty_sequence | x # rest \<Rightarrow> Inr (fold max rest x))"

text \<open>\<^verbatim>\<open>find_modes\<close>, the local function of \<^verbatim>\<open>predict\<close>.\<close>

definition find_modes ::
  "(real list \<Rightarrow> nat \<Rightarrow> nat list) \<Rightarrow> nat \<Rightarrow> 'l list \<Rightarrow> real list \<Rightarrow> error + 'l list" where
  "find_modes select k y distances =
     and_then (np_argpartition select distances k) (\<lambda>part.
     let idx = take k part
     in and_then (map_err (py_nth y) idx) (\<lambda>neighbor_labels.
        let counter = Counter neighbor_labels
        in and_then (py_max (map snd counter)) (\<lambda>max_count.
           Inr (map fst (filter (\<lambda>(l, v). v = max_count) counter)))))"

text \<open>\<^verbatim>\<open>random.choice(seq)\<close> is \<^verbatim>\<open>seq[randbelow(len(seq))]\<close>, and raises on an empty \<^verbatim>\<open>seq\<close>.\<close>

definition random_choice ::
  "('g \<Rightarrow> nat \<Rightarrow> nat \<times> 'g) \<Rightarrow> 'l list \<Rightarrow> 'g \<Rightarrow> error + 'l \<times> 'g" where
  "random_choice randbelow seq g =
     (if seq = [] then Inl IndexError
      else let (r, g') = randbelow g (length seq)
           in and_then (py_nth seq r) (\<lambda>x. Inr (x, g')))"

definition randbelow_ok :: "('g \<Rightarrow> nat \<Rightarrow> nat \<times> 'g) \<Rightarrow> bool" where
  "randbelow_ok randbelow = (\<forall>g n. 0 < n \<longrightarrow> fst (randbelow g n) < n)"

text \<open>A generator whose state is the list of its future raw draws.\<close>

definition list_randbelow :: "nat list \<Rightarrow> nat \<Rightarrow> nat \<times> nat list" where
  "list_randbelow g n = (case g of [] \<Rightarrow> (0, []) | r # rest \<Rightarrow> (r mod n, rest))"

text \<open>The distances from a query to every reference sequence, and the modal labels.\<close>

definition query_distances ::
  "('o, 'g) knn_env \<Rightarrow> ('o, 'l) DTWKNN \<Rightarrow> 'o list \<Rightarrow> 'o \<Rightarrow> real list" where
  "query_distances env clf X O' = map (\<lambda>x. env_fastdtw env (knn_radius clf) O' x) X"

definition query_modes ::
  "('o, 'g) knn_env \<Rightarrow> ('o, 'l) DTWKNN \<Rightarrow> 'o list \<Rightarrow> 'l list \<Rightarrow> 'o \<Rightarrow> error + 'l list" where
  "query_modes env clf X y O' =
     find_modes (env_argpartition env) (knn_k clf) y (query_distances env clf X O')"

text \<open>
  The vocabulary of the decision rule: the indices that the partial selection keeps for a
  query, the labels found there, the highest tally among them, and the labels that reach it.
\<close>

definition neighbors ::
  "('o, 'g) knn_env \<Rightarrow> ('o, 'l) DTWKNN \<Rightarrow> 'o list \<Rightarrow> 'o \<Rightarrow> nat list" where
  "neighbors env clf X O' =
     take (knn_k clf) (env_argpartition env (query_distances env clf X O') (knn_k clf))"

definition neighbor_labels ::
  "('o, 'g) knn_env \<Rightarrow> ('o, 'l) DTWKNN \<Rightarrow> 'o list \<Rightarrow> 'l list \<Rightarrow> 'o \<Rightarrow> 'l list" where
  "neighbor_labels env clf X y O' = map (\<lambda>i. y ! i) (neighbors env clf X O')"

definition top_count :: "'l list \<Rightarrow> nat" where
  "top_count ls = Max (count_list ls ` set ls)"

definition tied_for_top :: "'l list \<Rightarrow> 'l \<Rightarrow> bool" where
  "tied_for_top ls l = (l \<in> set ls \<and> count_list ls l = top_count ls)"

text \<open>One round of the loops of \<^verbatim>\<open>predict\<close>: classify a query, advance the generator.\<close>

definition classify ::
  "('o, 'g) knn_env \<Rightarrow> ('o, 'l) DTWKNN \<Rightarrow> 'o list \<Rightarrow> 'l list \<Rightarrow> 'o \<Rightarrow> 'g
     \<Rightarrow> error + 'l \<times> 'g" where
  "classify env clf X y O' g =
     and_then (query_modes env clf X y O') (\<lambda>modes. random_choice (env_randbelow env) modes g)"

fun classify_loop ::
  "('o, 'g) knn_env \<Rightarrow> ('o, 'l) DTWKNN \<Rightarrow> 'o list \<Rightarrow> 'l list \<Rightarrow> 'o list \<Rightarrow> 'g
     \<Rightarrow> error + 'l list \<times> 'g" where
  "classify_loop env clf X y [] g = Inr ([], g)"
| "classify_loop env clf X y (O' # rest) g =
     and_then (classify env clf X y O' g) (\<lambda>(l, g').
     and_then (classify_loop env clf X y rest g') (\<lambda>(labels, g'').
       Inr (l # labels, g'')))"

text \<open>\<^verbatim>\<open>predict\<close> on one sequence: the label and the next state of the generator.\<close>

definition DTWKNN_predict_single ::
  "('o, 'g) knn_env \<Rightarrow> ('o, 'l) DTWKNN \<Rightarrow> 'o \<Rightarrow> int \<Rightarrow> 'g \<Rightarrow> error + 'l \<times> 'g" where
  "DTWKNN_predict_single env clf O' n_jobs g =
     (case knn_data clf of
        None \<Rightarrow> Inl RuntimeError_not_fitted
      | Some (X, y) \<Rightarrow>
          and_then (check_n_jobs n_jobs) (\<lambda>_. classify env clf X y O' g))"

text \<open>
  \<^verbatim>\<open>predict\<close> on a list of sequences. With \<^verbatim>\<open>n_jobs = 1\<close> the loop runs in the calling
  process on its generator \<open>g\<close>. Otherwise the list is split into \<^verbatim>\<open>n_jobs\<close> chunks; the
  worker for chunk \<open>i\<close> is another process, whose generator starts in its own state
  \<open>worker_rng i\<close>; the chunk results are flattened in the order of the chunks, and the
  generator of the calling process is not used. A failing worker fails the call.
\<close>

definition DTWKNN_predict ::
  "('o, 'g) knn_env \<Rightarrow> ('o, 'l) DTWKNN \<Rightarrow> 'o list \<Rightarrow> int \<Rightarrow> 'g \<Rightarrow> (nat \<Rightarrow> 'g)
     \<Rightarrow> error + 'l list \<times> 'g" where
  "DTWKNN_predict env clf X' n_jobs g worker_rng =
     (case knn_data clf of
        None \<Rightarrow> Inl RuntimeError_not_fitted
      | Some (X, y) \<Rightarrow>
          and_then (check_n_jobs n_jobs) (\<lambda>_.
          if n_jobs = 1 then classify_loop env clf X y X' g
          else
            let n = (if n_jobs = - 1 then env_cpu_count env else nat n_jobs)
            in and_then (np_array_split X' n) (\<lambda>X_chunks.
               and_then (map_err (\<lambda>(i, chunk).
                            and_then (classify_loop env clf X y chunk (worker_rng i))
                              (\<lambda>(labels, _). Inr labels))
                          (enumerate 0 X_chunks)) (\<lambda>labels.
                 Inr (concat labels, g)))))"

subsection \<open>Saving and loading\<close>

text \<open>
  An HDF5 group is a collection of named datasets. \<^verbatim>\<open>create_dataset\<close> adds one; iterating
  over the keys of a group visits the names in increasing byte order, not in the order of
  creation (\<^verbatim>\<open>h5py\<close> does not track creation order unless asked to).
\<close>

type_synonym 'a h5group = "(string \<times> 'a) list"

definition create_dataset :: "'a h5group \<Rightarrow> string \<Rightarrow> 'a \<Rightarrow> 'a h5group" where
  "create_dataset grp name d = grp @ [(name, d)]"

definition h5_keys :: "'a h5group \<Rightarrow> string list" where
  "h5_keys grp = sort (map fst grp)"

definition h5_get :: "'a h5group \<Rightarrow> string \<Rightarrow> error + 'a" where
  "h5_get grp name = (case map_of grp name of None \<Rightarrow> Inl KeyError | Some d \<Rightarrow> Inr d)"

text \<open>\<^verbatim>\<open>str(i)\<close> for a non-negative integer: its decimal digits.\<close>

definition digit_char :: "nat \<Rightarrow> char" where
  "digit_char d = ''0123456789'' ! d"

fun str :: "nat \<Rightarrow> string" where
  "str n = (if n < 10 then [digit_char n] else str (n div 10) @ [digit_char (n mod 10)])"

declare str.simps [simp del]

text \<open>
  The saved file. The labels are stored as an array of byte strings and decoded on loading;
  labels are taken to survive this unchanged.
\<close>

record ('o, 'l) h5file =
  params_k :: nat
  params_radius :: nat
  data_X :: "'o h5group"
  data_y :: "'l list"

definition DTWKNN_save :: "('o, 'l) DTWKNN \<Rightarrow> error + ('o, 'l) h5file" where
  "DTWKNN_save clf =
     (case knn_data clf of
        None \<Rightarrow> Inl RuntimeError_not_fitted
      | Some (X, y) \<Rightarrow>
          Inr \<lparr>params_k = knn_k clf, params_radius = knn_radius clf,
               data_X = foldl (\<lambda>grp (i, x). create_dataset grp (str i) x) [] (enumerate 0 X),
               data_y = y\<rparr>)"

definition DTWKNN_load :: "('o, 'l) h5file \<Rightarrow> error + ('o, 'l) DTWKNN" where
  "DTWKNN_load f =
     and_then (DTWKNN_init (int (params_k f)) (int (params_radius f))) (\<lambda>clf.
     and_then (map_err (h5_get (data_X f)) (h5_keys (data_X f))) (\<lambda>X.
       Inr (clf\<lparr>knn_data := Some (X, data_y f)\<rparr>)))"

section \<open>Freezing parameters\<close>

text \<open>
  \<^verbatim>\<open>freeze\<close> and \<^verbatim>\<open>unfreeze\<close> of the two model variants only call \<^verbatim>\<open>freeze\<close> of their
  base class, which is not among the sources and is a parameter here. A model carries the
  letters of its trainable parameters (\<^verbatim>\<open>hmmlearn_kwargs["params"]\<close>).
\<close>

record hmm_model =
  trainable :: string

type_synonym base_freeze = "string \<Rightarrow> hmm_model \<Rightarrow> error + hmm_model"

definition GaussianMixtureHMM_default_params :: string where
  "GaussianMixtureHMM_default_params = ''stmcw''"

definition MultinomialHMM_default_params :: string where
  "MultinomialHMM_default_params = ''ste''"

definition GaussianMixtureHMM_freeze ::
  "base_freeze \<Rightarrow> string option \<Rightarrow> hmm_model \<Rightarrow> error + hmm_model" where
  "GaussianMixtureHMM_freeze super_freeze params self =
     super_freeze (case params of None \<Rightarrow> GaussianMixtureHMM_default_params | Some p \<Rightarrow> p) self"

definition GaussianMixtureHMM_unfreeze ::
  "base_freeze \<Rightarrow> string option \<Rightarrow> hmm_model \<Rightarrow> error + hmm_model" where
  "GaussianMixtureHMM_unfreeze super_freeze params self =
     super_freeze (case params of None \<Rightarrow> GaussianMixtureHMM_default_params | Some p \<Rightarrow> p) self"

definition MultinomialHMM_freeze ::
  "base_freeze \<Rightarrow> string option \<Rightarrow> hmm_model \<Rightarrow> error + hmm_model" where
  "MultinomialHMM_freeze super_freeze params self =
     super_freeze (case params of None \<Rightarrow> MultinomialHMM_default_params | Some p \<Rightarrow> p) self"

definition MultinomialHMM_unfreeze ::
  "base_freeze \<Rightarrow> string option \<Rightarrow> hmm_model \<Rightarrow> error + hmm_model" where
  "MultinomialHMM_unfreeze super_freeze params self =
     super_freeze (case params of None \<Rightarrow> MultinomialHMM_default_params | Some p \<Rightarrow> p) self"

text \<open>A base-class \<^verbatim>\<open>freeze\<close> never makes a parameter trainable.\<close>

definition freezes_only :: "base_freeze \<Rightarrow> bool" where
  "freezes_only super_freeze =
     (\<forall>params self self'. super_freeze params self = Inr self'
         \<longrightarrow> set (trainable self') \<subseteq> set (trainable self))"

text \<open>
  Modelled from the spec: the base-class method \<^verbatim>\<open>HMM.freeze\<close> is not among the sources.
  The spec speaks of parameter-freeze flags, and the variants document \<^verbatim>\<open>freeze\<close> as
  preventing the named parameters from being updated: this stand-in removes the named
  letters from the trainable ones.
\<close>

definition HMM_freeze :: base_freeze where
  "HMM_freeze params self = Inr (self\<lparr>trainable := filter (\<lambda>c. c \<notin> set params) (trainable self)\<rparr>)"

section \<open>Concrete inputs\<close>

text \<open>
  Sequences that are single numbers, with the absolute difference as their distance; the
  selection by stable sorting; the generator that reads its draws from a list.
\<close>

definition abs_env :: "(nat, nat list) knn_env" where
  "abs_env = \<lparr>env_fastdtw = (\<lambda>radius a b. \<bar>real a - real b\<bar>),
              env_argpartition = argsort_select,
              env_randbelow = list_randbelow,
              env_cpu_count = 4\<rparr>"

text \<open>A classifier with eleven reference sequences and \<open>k = 1\<close>.\<close>

definition knn11 :: "(nat, string) DTWKNN" where
  "knn11 = \<lparr>knn_k = 1, knn_radius = 1,
            knn_data = Some ([0, 10, 20, 30, 40, 50, 60, 70, 80, 90, 100],
                             [''L0'', ''L1'', ''L2'', ''L3'', ''L4'', ''L5'', ''L6'', ''L7'',
                              ''L8'', ''L9'', ''L10''])\<rparr>"

definition knn11_file :: "(nat, string) h5file" where
  "knn11_file = \<lparr>params_k = 1, params_radius = 1,
                 data_X = [(''0'', 0), (''1'', 10), (''2'', 20), (''3'', 30), (''4'', 40),
                           (''5'', 50), (''6'', 60), (''7'', 70), (''8'', 80), (''9'', 90),
                           (''10'', 100)],
                 data_y = [''L0'', ''L1'', ''L2'', ''L3'', ''L4'', ''L5'', ''L6'', ''L7'',
                           ''L8'', ''L9'', ''L10'']\<rparr>"

definition knn11_loaded :: "(nat, string) DTWKNN" where
  "knn11_loaded = \<lparr>knn_k = 1, knn_radius = 1,
                   knn_data = Some ([0, 10, 100, 20, 30, 40, 50, 60, 70, 80, 90],
                                    [''L0'', ''L1'', ''L2'', ''L3'', ''L4'', ''L5'', ''L6'',
                                     ''L7'', ''L8'', ''L9'', ''L10''])\<rparr>"

text \<open>Models whose log-likelihood does not depend on the sequence.\<close>

definition const_model :: "string \<Rightarrow> nat \<Rightarrow> real \<Rightarrow> (unit, string) GMMHMM" where
  "const_model l n v = \<lparr>label = l, n_seqs = n, forward = (\<lambda>_. v)\<rparr>"

text \<open>Three models fitted in the order c, a, b; the models of a and b give the same score.\<close>

definition ensemble_cab :: "(unit, string) HMMClassifier" where
  "ensemble_cab = \<lparr>models = [const_model ''c'' 1 (- 10), const_model ''a'' 1 (- 5),
                              const_model ''b'' 1 (- 5)],
                   classes = [''a'', ''b'', ''c'']\<rparr>"

text \<open>Two models fitted in the order b, a; the model of b gives the better score.\<close>

definition ensemble_ba :: "(unit, string) HMMClassifier" where
  "ensemble_ba = \<lparr>models = [const_model ''b'' 1 0, const_model ''a'' 1 (- 5)],
                  classes = [''a'', ''b'']\<rparr>"

text \<open>Three references of which the two nearest to the query \<open>2\<close> have different labels.\<close>

definition knn_tie :: "(nat, string) DTWKNN" where
  "knn_tie = \<lparr>knn_k = 2, knn_radius = 1,
              knn_data = Some ([0, 4, 100], [''a'', ''b'', ''c''])\<rparr>"

text \<open>Three references labelled a, b, a and \<open>k = 1\<close>.\<close>

definition knn_aba :: "(nat, string) DTWKNN" where
  "knn_aba = \<lparr>knn_k = 1, knn_radius = 1,
              knn_data = Some ([0, 5, 9], [''a'', ''b'', ''a''])\<rparr>"

text \<open>One reference and \<open>k = 1\<close>.\<close>

definition knn_one :: "(nat, string) DTWKNN" where
  "knn_one = \<lparr>knn_k = 1, knn_radius = 1, knn_data = Some ([0], [''a''])\<rparr>"

section \<open>Generated and validated transition matrices\<close>

subsection \<open>The uniform matrices in closed form\<close>

lemma np_ones2_tab: "np_ones2 r c = tab r c (\<lambda>_ _. 1)"
  by (simp add: np_ones2_def tab_def map_replicate_const)

lemma np_zeros2_tab: "np_zeros2 r c = tab r c (\<lambda>_ _. 0)"
  by (simp add: np_zeros2_def tab_def map_replicate_const)

lemma np_triu_tab: "np_triu (tab r c f) = tab r c (\<lambda>i j. if i \<le> j then f i j else 0)"
  by (simp add: np_triu_def tab_def enumerate_map_upt o_def)

lemma ncols_tab: "0 < r \<Longrightarrow> ncols (tab r c f) = c"
  by (simp add: ncols_def tab_def upt_conv_Cons)

lemma np_T_tab: "0 < r \<Longrightarrow> np_T (tab r c f) = tab c r (\<lambda>i j. f j i)"
  by (simp add: np_T_def ncols_tab) (simp add: tab_def o_def)

lemma mat_add_tab: "mat_add (tab r c f) (tab r c g) = tab r c (\<lambda>i j. f i j + g i j)"
  by (simp add: mat_add_def tab_def map2_map_map)

lemma mat_div_tab: "mat_div (tab r c f) (tab r c g) = tab r c (\<lambda>i j. f i j / g i j)"
  by (simp add: mat_div_def tab_def map2_map_map)

lemma upper_ones_tab: "upper_ones n = tab n n (\<lambda>i j. if i \<le> j then 1 else 0)"
  by (simp add: upper_ones_def np_ones2_tab np_triu_tab)

lemma tile_tab: "np_tile_rows (np_arange_down n) n = tab n n (\<lambda>i j. real (n - j))"
  by (simp add: np_tile_rows_def np_arange_down_def tab_def map_replicate_const)

lemma upper_divisors_tab: "upper_divisors n = tab n n (\<lambda>i j. if i \<le> j then real (n - i) else 0)"
  by (cases "n = 0") (simp_all add: upper_divisors_def tile_tab np_T_tab np_triu_tab, simp add: tab_def np_triu_def np_T_def ncols_def)

lemma lower_ones_tab: "lower_ones n = tab n n (\<lambda>i j. if j < i then 1 else 0)"
  by (simp add: lower_ones_def np_tril_below_1d_def np_ones_def tab_def enumerate_replicate_eq)

lemma left_right_uniform_tab:
  "uniform_transitions LeftRight n = tab n n (\<lambda>i j. if i \<le> j then 1 / real (n - i) else 0)"
  by (simp add: upper_ones_tab upper_divisors_tab lower_ones_tab mat_add_tab mat_div_tab)
     (auto simp add: tab_def)

lemma ergodic_uniform_tab:
  "uniform_transitions Ergodic n = tab n n (\<lambda>i j. 1 / real n)"
  by (simp add: mat_div_scalar_def vec_div_scalar_def np_ones2_tab tab_def)


lemma linear_uniform_row_eq:
  assumes "i < n"
  shows "linear_uniform_row n (i, replicate n 0) =
         map (\<lambda>j. if j = i \<or> j = Suc i then (if Suc i = n then 1 else 1 / 2) else 0) [0..<n]"
proof (rule nth_equalityI)
  show "length (linear_uniform_row n (i, replicate n 0)) =
        length (map (\<lambda>j. if j = i \<or> j = Suc i then (if Suc i = n then 1 else 1 / 2 :: real) else 0) [0..<n])"
    using assms by (auto simp add: linear_uniform_row_def set_slice_def vec_div_scalar_def np_ones_def Let_def min_def)
next
  fix j assume "j < length (linear_uniform_row n (i, replicate n 0))"
  then have j: "j < n"
    using assms by (auto simp add: linear_uniform_row_def set_slice_def vec_div_scalar_def np_ones_def Let_def min_def split: if_splits)
  show "linear_uniform_row n (i, replicate n 0) ! j =
        map (\<lambda>j. if j = i \<or> j = Suc i then (if Suc i = n then 1 else 1 / 2) else 0) [0..<n] ! j"
  proof (cases "Suc i = n")
    case True
    then show ?thesis using j assms
      by (auto simp add: linear_uniform_row_def set_slice_def vec_div_scalar_def np_ones_def Let_def nth_append)
  next
    case False
    then have "min 2 (n - i) = 2" using assms by simp
    then show ?thesis using j assms False
      by (auto simp add: linear_uniform_row_def set_slice_def vec_div_scalar_def np_ones_def Let_def nth_append nth_Cons' numeral_2_eq_2)
  qed
qed

lemma linear_uniform_tab:
  "uniform_transitions Linear n =
     tab n n (\<lambda>i j. if j = i \<or> j = Suc i then (if Suc i = n then 1 else 1 / 2) else 0)"
  by (simp add: np_zeros2_def enumerate_replicate_eq tab_def linear_uniform_row_eq)

lemma uniform_start_probs_eq: "uniform_start_probs n = replicate n (1 / real n)"
  by (simp add: uniform_start_probs_def vec_div_scalar_def np_ones_def)

subsection \<open>What the checks test\<close>

lemma list_ex_enumerate:
  "list_ex (\<lambda>(i, x). P i x) (enumerate 0 xs) \<longleftrightarrow> (\<exists>i<length xs. P i (xs ! i))"
  by (auto simp add: list_ex_iff in_set_enumerate_eq)

lemma entry_exists_iff:
  "entry_exists P t \<longleftrightarrow> (\<exists>i<length t. \<exists>j<length (t ! i). P i j (t ! i ! j))"
  by (simp add: entry_exists_def list_ex_enumerate)

lemma has_shape_iff:
  "has_shape t r c \<longleftrightarrow> length t = r \<and> (\<forall>i<length t. length (t ! i) = c)"
  by (auto simp add: has_shape_def list_all_length)

lemma np_isclose_refl: "np_isclose x x"
  by (simp add: np_isclose_def atol_def rtol_def)

lemma np_isclose_zero: "np_isclose x 0 \<longleftrightarrow> \<bar>x\<bar> \<le> atol"
  by (simp add: np_isclose_def)

lemma row_sums_close_iff:
  "length t = n \<Longrightarrow> np_allclose (row_sums t) (np_ones n) \<longleftrightarrow> rows_sum_to_one t"
  by (auto simp add: np_allclose_def row_sums_def np_ones_def rows_sum_to_one_def
        list_all2_conv_all_nth list_all_length)

lemma np_triu_close_iff:
  "np_allclose2 t (np_triu t) \<longleftrightarrow> \<not> zero_pattern_exceeded LeftRight t"
proof -
  have "np_allclose2 t (np_triu t) \<longleftrightarrow>
        (\<forall>i<length t. \<forall>j<length (t ! i). j < i \<longrightarrow> \<bar>t ! i ! j\<bar> \<le> atol)"
    by (auto simp add: np_allclose2_def np_allclose_def np_triu_def
        list_all2_conv_all_nth nth_enumerate_eq np_isclose_refl np_isclose_zero)
  also have "\<dots> \<longleftrightarrow> \<not> zero_pattern_exceeded LeftRight t"
    by (simp add: zero_pattern_exceeded_def entry_exists_iff) (meson not_le)
  finally show ?thesis .
qed

lemma ncols_shape: "has_shape t n n \<Longrightarrow> ncols t = n"
  by (cases t) (auto simp add: has_shape_def ncols_def)

lemma tab_nth: "i < r \<Longrightarrow> j < c \<Longrightarrow> tab r c f ! i ! j = f i j"
  by (simp add: tab_def)

lemma length_tab: "length (tab r c f) = r"
  by (simp add: tab_def)

lemma length_tab_row: "i < r \<Longrightarrow> length (tab r c f ! i) = c"
  by (simp add: tab_def)

lemma band_tab:
  assumes "has_shape t n n"
  shows "mat_add (np_diag_from (np_diag_of t 0) 0) (np_diag_from (np_diag_of t 1) 1) =
         tab n n (\<lambda>i j. if j = i then t ! i ! i else if j = Suc i then t ! i ! j else 0)"
proof (cases "n = 0")
  case True
  then have "t = []" using assms by (simp add: has_shape_def)
  then show ?thesis using True
    by (simp add: mat_add_def np_diag_from_def np_diag_of_def ncols_def tab_def)
next
  case False
  have len: "length t = n" using assms by (simp add: has_shape_def)
  have d0: "np_diag_from (np_diag_of t 0) 0 = tab n n (\<lambda>i j. if j = i then t ! i ! i else 0)"
    using ncols_shape[OF assms] len
    by (auto simp add: np_diag_from_def np_diag_of_def tab_def)
  have d1: "np_diag_from (np_diag_of t 1) 1 =
            tab n n (\<lambda>i j. if j = Suc i \<and> i < n - 1 then t ! i ! j else 0)"
    using ncols_shape[OF assms] len False
    by (auto simp add: np_diag_from_def np_diag_of_def tab_def)
  show ?thesis
    unfolding d0 d1 mat_add_tab
    by (auto simp add: tab_def)
qed

lemma allclose2_tab_iff:
  assumes "has_shape t n n"
  shows "np_allclose2 t (tab n n g) \<longleftrightarrow> (\<forall>i<n. \<forall>j<n. np_isclose (t ! i ! j) (g i j))"
  using assms
  by (auto simp add: np_allclose2_def np_allclose_def list_all2_conv_all_nth has_shape_iff
        length_tab length_tab_row tab_nth)

lemma band_close_iff:
  assumes "has_shape t n n"
  shows "np_allclose2 t (mat_add (np_diag_from (np_diag_of t 0) 0) (np_diag_from (np_diag_of t 1) 1))
         \<longleftrightarrow> \<not> zero_pattern_exceeded Linear t"
proof -
  have sh: "length t = n" "\<And>i. i < n \<Longrightarrow> length (t ! i) = n"
    using assms by (auto simp add: has_shape_iff)
  have "np_allclose2 t (mat_add (np_diag_from (np_diag_of t 0) 0) (np_diag_from (np_diag_of t 1) 1))
        \<longleftrightarrow> (\<forall>i<n. \<forall>j<n. j \<noteq> i \<and> j \<noteq> Suc i \<longrightarrow> \<bar>t ! i ! j\<bar> \<le> atol)"
    unfolding band_tab[OF assms] allclose2_tab_iff[OF assms]
    by (auto simp add: np_isclose_refl np_isclose_zero)
  also have "\<dots> \<longleftrightarrow> \<not> zero_pattern_exceeded Linear t"
  proof
    assume h: "\<forall>i<n. \<forall>j<n. j \<noteq> i \<and> j \<noteq> Suc i \<longrightarrow> \<bar>t ! i ! j\<bar> \<le> atol"
    show "\<not> zero_pattern_exceeded Linear t"
    proof
      assume "zero_pattern_exceeded Linear t"
      then obtain i j where a: "i < length t" "j < length (t ! i)" "j < i \<or> Suc i < j"
          "atol < \<bar>t ! i ! j\<bar>"
        by (auto simp add: zero_pattern_exceeded_def entry_exists_iff)
      then have ij: "i < n" "j < n" "j \<noteq> i \<and> j \<noteq> Suc i" using sh by auto
      with h have "\<bar>t ! i ! j\<bar> \<le> atol" by blast
      with a show False by simp
    qed
  next
    assume nv: "\<not> zero_pattern_exceeded Linear t"
    show "\<forall>i<n. \<forall>j<n. j \<noteq> i \<and> j \<noteq> Suc i \<longrightarrow> \<bar>t ! i ! j\<bar> \<le> atol"
    proof (intro allI impI)
      fix i j assume ij: "i < n" "j < n" "j \<noteq> i \<and> j \<noteq> Suc i"
      then have op: "j < i \<or> Suc i < j" by auto
      show "\<bar>t ! i ! j\<bar> \<le> atol"
      proof (rule ccontr)
        assume "\<not> \<bar>t ! i ! j\<bar> \<le> atol"
        then have "i < length t \<and> j < length (t ! i) \<and> (j < i \<or> Suc i < j) \<and> atol < \<bar>t ! i ! j\<bar>"
          using ij op sh by simp
        then have "zero_pattern_exceeded Linear t"
          unfolding zero_pattern_exceeded_def entry_exists_iff outside_pattern.simps by blast
        with nv show False by simp
      qed
    qed
  qed
  finally show ?thesis .
qed

lemma exceeded_LeftRight_Linear:
  "zero_pattern_exceeded LeftRight t \<Longrightarrow> zero_pattern_exceeded Linear t"
  by (auto simp add: zero_pattern_exceeded_def entry_exists_iff)

lemma check_raises_iff:
  "isl (check_transitions kind n t) \<longleftrightarrow>
     \<not> has_shape t n n \<or> \<not> rows_sum_to_one t \<or> zero_pattern_exceeded kind t"
proof (cases "has_shape t n n")
  case False
  then show ?thesis
    by (cases kind) (simp_all add: Ergodic_check_transitions_def LeftRight_check_transitions_def
        Linear_check_transitions_def Topology_check_transitions_def)
next
  case True
  then have len: "length t = n" by (simp add: has_shape_def)
  show ?thesis
  proof (cases kind)
    case Ergodic
    then show ?thesis using True row_sums_close_iff[OF len]
      by (simp add: Ergodic_check_transitions_def Topology_check_transitions_def
          zero_pattern_exceeded_def entry_exists_iff)
  next
    case LeftRight
    then show ?thesis using True row_sums_close_iff[OF len] np_triu_close_iff[of t]
      by (simp add: LeftRight_check_transitions_def Topology_check_transitions_def)
  next
    case Linear
    then show ?thesis
      using True row_sums_close_iff[OF len] np_triu_close_iff[of t] band_close_iff[OF True]
        exceeded_LeftRight_Linear[of t]
      by (auto simp add: Linear_check_transitions_def LeftRight_check_transitions_def
          Topology_check_transitions_def)
  qed
qed

subsection \<open>Generated matrices are accepted\<close>

lemma has_shape_tab: "has_shape (tab n n f) n n"
  by (simp add: has_shape_iff length_tab length_tab_row)

lemma rows_sum_tab:
  "rows_sum_to_one (tab r c f) \<longleftrightarrow> (\<forall>i<r. np_isclose (sum_list (map (f i) [0..<c])) 1)"
  by (auto simp add: rows_sum_to_one_def tab_def list_all_length)

lemma exceeded_tab:
  "zero_pattern_exceeded kind (tab r c f) \<longleftrightarrow>
     (\<exists>i<r. \<exists>j<c. outside_pattern kind i j \<and> atol < \<bar>f i j\<bar>)"
  by (simp add: zero_pattern_exceeded_def entry_exists_iff length_tab length_tab_row tab_nth
        cong: conj_cong)

lemma sum_list_upt: "sum_list (map f [0..<n]) = sum f {0..<n}"
  by (simp add: interv_sum_list_conv_sum_set_nat)

lemma ergodic_row_sum: "0 < n \<Longrightarrow> sum_list (map (\<lambda>j. 1 / real n) [0..<n]) = 1"
  by (simp add: sum_list_upt)

lemma left_right_row_sum:
  assumes "i < n"
  shows "sum_list (map (\<lambda>j. if i \<le> j then 1 / real (n - i) else 0) [0..<n]) = 1"
proof -
  have "{0..<n} \<inter> {j. i \<le> j} = {i..<n}" by auto
  then have "sum (\<lambda>j. if i \<le> j then 1 / real (n - i) else 0) {0..<n} =
             sum (\<lambda>j. 1 / real (n - i)) {i..<n}"
    by (simp add: sum.If_cases)
  also have "\<dots> = 1" using assms by simp
  finally show ?thesis by (simp add: sum_list_upt)
qed

lemma linear_row_sum:
  assumes "i < n"
  shows "sum_list (map (\<lambda>j. if j = i \<or> j = Suc i then (if Suc i = n then 1 else 1 / 2) else 0)
           [0..<n]) = (1::real)"
proof (cases "Suc i = n")
  case True
  then have "{0..<n} \<inter> {j. j = i \<or> j = Suc i} = {i}" by auto
  then have "sum (\<lambda>j. if j = i \<or> j = Suc i then (if Suc i = n then 1 else 1 / 2) else (0::real)) {0..<n}
             = sum (\<lambda>j. 1) {i}"
    using True by (simp add: sum.If_cases)
  then show ?thesis by (simp add: sum_list_upt)
next
  case False
  then have "{0..<n} \<inter> {j. j = i \<or> j = Suc i} = {i, Suc i}" using assms by auto
  then have "sum (\<lambda>j. if j = i \<or> j = Suc i then (if Suc i = n then 1 else 1 / 2) else (0::real)) {0..<n}
             = sum (\<lambda>j. 1 / 2) {i, Suc i}"
    using False by (simp add: sum.If_cases)
  then show ?thesis by (simp add: sum_list_upt)
qed

lemma atol_pos: "0 < atol"
  by (simp add: atol_def)

lemma uniform_passes:
  assumes "0 < n"
  shows "\<not> isl (check_transitions kind n (uniform_transitions kind n))"
proof (cases kind)
  case Ergodic
  show ?thesis unfolding check_raises_iff Ergodic ergodic_uniform_tab
    using assms by (simp add: has_shape_tab rows_sum_tab exceeded_tab ergodic_row_sum np_isclose_refl)
next
  case LeftRight
  show ?thesis unfolding check_raises_iff LeftRight left_right_uniform_tab
    using atol_pos
    by (auto simp add: has_shape_tab rows_sum_tab exceeded_tab left_right_row_sum np_isclose_refl)
next
  case Linear
  show ?thesis unfolding check_raises_iff Linear linear_uniform_tab
    using atol_pos
    by (auto simp add: has_shape_tab rows_sum_tab exceeded_tab linear_row_sum np_isclose_refl)
qed

lemma dirichlet_okD:
  assumes "dirichlet_ok d" "alpha \<noteq> []" "d g alpha = (s, g')"
  shows "length s = length alpha" "np_isclose (sum_list s) 1"
  using assms unfolding dirichlet_ok_def by (metis fst_conv)+

lemma dirichlet_rows_ok:
  assumes "dirichlet_ok d" "alpha \<noteq> []"
  shows "length (fst (dirichlet_rows d alpha m g)) = m \<and>
         (\<forall>row \<in> set (fst (dirichlet_rows d alpha m g)).
            length row = length alpha \<and> np_isclose (sum_list row) 1)"
proof (induction m arbitrary: g)
  case 0
  show ?case by simp
next
  case (Suc m)
  obtain s g' where s: "d g alpha = (s, g')" by (cases "d g alpha")
  obtain rows g'' where r: "dirichlet_rows d alpha m g' = (rows, g'')"
    by (cases "dirichlet_rows d alpha m g'")
  from Suc.IH[of g'] r have ih: "length rows = m"
    "\<forall>row \<in> set rows. length row = length alpha \<and> np_isclose (sum_list row) 1" by simp_all
  show ?case using s r ih dirichlet_okD[OF assms s] by simp
qed

lemma left_right_loop_ok:
  assumes "dirichlet_ok d"
  shows "k + m \<le> n \<Longrightarrow>
         length (fst (left_right_random_loop d n (enumerate k (replicate m (replicate n 0))) g)) = m \<and>
         (\<forall>(i, row) \<in> set (enumerate k
              (fst (left_right_random_loop d n (enumerate k (replicate m (replicate n 0))) g))).
            length row = n \<and> np_isclose (sum_list row) 1 \<and> (\<forall>j<i. row ! j = 0))"
proof (induction m arbitrary: k g)
  case 0
  show ?case by simp
next
  case (Suc m)
  then have kn: "k < n" by simp
  then have ne: "np_ones (n - k) \<noteq> []" by (simp add: np_ones_def)
  obtain s g' where s: "d g (np_ones (n - k)) = (s, g')" by (cases "d g (np_ones (n - k))")
  obtain rows g'' where r:
    "left_right_random_loop d n (enumerate (Suc k) (replicate m (replicate n 0))) g' = (rows, g'')"
    by (cases "left_right_random_loop d n (enumerate (Suc k) (replicate m (replicate n 0))) g'")
  from Suc.prems have "Suc k + m \<le> n" by simp
  from Suc.IH[OF this, of g'] r have ih: "length rows = m"
    "\<forall>(i, row) \<in> set (enumerate (Suc k) rows).
        length row = n \<and> np_isclose (sum_list row) 1 \<and> (\<forall>j<i. row ! j = 0)" by simp_all
  have ls: "length s = n - k" "np_isclose (sum_list s) 1"
    using dirichlet_okD[OF assms ne s] by (simp_all add: np_ones_def)
  have row: "set_slice (replicate n 0) k n s = replicate k 0 @ s"
    using kn by (simp add: set_slice_def)
  show ?case using s r ih ls kn by (simp add: row nth_append sum_list_replicate)
qed

lemma linear_loop_ok:
  assumes "dirichlet_ok d"
  shows "k + m \<le> n \<Longrightarrow>
         length (fst (linear_random_loop d n (enumerate k (replicate m (replicate n 0))) g)) = m \<and>
         (\<forall>(i, row) \<in> set (enumerate k
              (fst (linear_random_loop d n (enumerate k (replicate m (replicate n 0))) g))).
            length row = n \<and> np_isclose (sum_list row) 1 \<and>
            (\<forall>j<n. j < i \<or> Suc i < j \<longrightarrow> row ! j = 0))"
proof (induction m arbitrary: k g)
  case 0
  show ?case by simp
next
  case (Suc m)
  then have kn: "k < n" by simp
  define size where "size = min 2 (n - k)"
  have sz: "0 < size" "size \<le> 2" "k + size \<le> n" using kn by (auto simp add: size_def)
  then have ne: "np_ones size \<noteq> []" by (simp add: np_ones_def)
  obtain s g' where s: "d g (np_ones size) = (s, g')" by (cases "d g (np_ones size)")
  obtain rows g'' where r:
    "linear_random_loop d n (enumerate (Suc k) (replicate m (replicate n 0))) g' = (rows, g'')"
    by (cases "linear_random_loop d n (enumerate (Suc k) (replicate m (replicate n 0))) g'")
  from Suc.prems have "Suc k + m \<le> n" by simp
  from Suc.IH[OF this, of g'] r have ih: "length rows = m"
    "\<forall>(i, row) \<in> set (enumerate (Suc k) rows).
        length row = n \<and> np_isclose (sum_list row) 1 \<and>
        (\<forall>j<n. j < i \<or> Suc i < j \<longrightarrow> row ! j = 0)" by simp_all
  have ls: "length s = size" "np_isclose (sum_list s) 1"
    using dirichlet_okD[OF assms ne s] by (simp_all add: np_ones_def)
  have row: "set_slice (replicate n 0) k (k + size) s = replicate k 0 @ s @ replicate (n - (k + size)) 0"
    using sz by (simp add: set_slice_def)
  have zero: "\<forall>j<n. j < k \<or> Suc k < j \<longrightarrow> (replicate k 0 @ s @ replicate (n - (k + size)) 0) ! j = 0"
    using sz ls by (auto simp add: nth_append)
  have eq: "linear_random_loop d n (enumerate k (replicate (Suc m) (replicate n 0))) g =
        ((replicate k 0 @ s @ replicate (n - (k + size)) 0) # rows, g'')"
    using s r row by (simp add: size_def Let_def)
  show ?case unfolding eq using ih ls sz zero by (simp add: sum_list_replicate)
qed

lemma enumerate_all_iff:
  "(\<forall>(i, x) \<in> set (enumerate 0 xs). P i x) \<longleftrightarrow> (\<forall>i<length xs. P i (xs ! i))"
  by (auto simp add: in_set_enumerate_eq)

lemma exceeded_iff:
  "zero_pattern_exceeded kind t \<longleftrightarrow>
     (\<exists>i<length t. \<exists>j<length (t ! i). outside_pattern kind i j \<and> atol < \<bar>t ! i ! j\<bar>)"
  by (simp add: zero_pattern_exceeded_def entry_exists_iff)

lemma random_passes:
  assumes "dirichlet_ok d" "0 < n"
  shows "\<not> isl (check_transitions kind n (fst (random_transitions d kind n g)))"
proof (cases kind)
  case Ergodic
  have ne: "np_ones n \<noteq> []" using assms by (simp add: np_ones_def)
  show ?thesis unfolding check_raises_iff Ergodic
    using dirichlet_rows_ok[OF assms(1) ne, of n g]
    by (simp add: has_shape_def rows_sum_to_one_def list_all_iff exceeded_iff np_ones_def)
next
  case LeftRight
  define R where "R = fst (left_right_random_loop d n (enumerate 0 (replicate n (replicate n 0))) g)"
  have "length R = n \<and> (\<forall>(i, row) \<in> set (enumerate 0 R).
          length row = n \<and> np_isclose (sum_list row) 1 \<and> (\<forall>j<i. row ! j = 0))"
    unfolding R_def using left_right_loop_ok[OF assms(1), of 0 n n g] by simp
  then have R: "length R = n" "\<And>i. i < n \<Longrightarrow> length (R ! i) = n"
    "\<And>i. i < n \<Longrightarrow> np_isclose (sum_list (R ! i)) 1"
    "\<And>i j. i < n \<Longrightarrow> j < i \<Longrightarrow> R ! i ! j = 0"
    unfolding enumerate_all_iff by auto
  have "has_shape R n n \<and> rows_sum_to_one R \<and> \<not> zero_pattern_exceeded LeftRight R"
    using R atol_pos by (auto simp add: has_shape_iff rows_sum_to_one_def list_all_length exceeded_iff)
  then show ?thesis unfolding check_raises_iff LeftRight
    by (simp add: R_def np_zeros2_def)
next
  case Linear
  define R where "R = fst (linear_random_loop d n (enumerate 0 (replicate n (replicate n 0))) g)"
  have "length R = n \<and> (\<forall>(i, row) \<in> set (enumerate 0 R).
          length row = n \<and> np_isclose (sum_list row) 1 \<and>
          (\<forall>j<n. j < i \<or> Suc i < j \<longrightarrow> row ! j = 0))"
    unfolding R_def using linear_loop_ok[OF assms(1), of 0 n n g] by simp
  then have R: "length R = n" "\<And>i. i < n \<Longrightarrow> length (R ! i) = n"
    "\<And>i. i < n \<Longrightarrow> np_isclose (sum_list (R ! i)) 1"
    "\<And>i j. i < n \<Longrightarrow> j < n \<Longrightarrow> j < i \<or> Suc i < j \<Longrightarrow> R ! i ! j = 0"
    unfolding enumerate_all_iff by auto
  have "has_shape R n n \<and> rows_sum_to_one R \<and> \<not> zero_pattern_exceeded Linear R"
    using R atol_pos by (auto simp add: has_shape_iff rows_sum_to_one_def list_all_length exceeded_iff)
  then show ?thesis unfolding check_raises_iff Linear
    by (simp add: R_def np_zeros2_def)
qed

lemma check_returns_input:
  "check_transitions kind n t = Inr (w, t') \<Longrightarrow> t' = t"
  by (cases kind)
     (auto simp add: Ergodic_check_transitions_def LeftRight_check_transitions_def
        Linear_check_transitions_def Topology_check_transitions_def split: if_splits sum.splits)

lemma not_raised:
  assumes "\<not> isl (check_transitions kind n t)"
  shows "\<exists>w. check_transitions kind n t = Inr (w, t)"
proof -
  from assms obtain w t' where r: "check_transitions kind n t = Inr (w, t')"
    by (cases "check_transitions kind n t") auto
  with check_returns_input[OF r] show ?thesis by simp
qed

lemma centre_sampler_ok: "dirichlet_ok centre_sampler"
  by (auto simp add: dirichlet_ok_def centre_sampler_def list_all_iff sum_list_triv
        np_isclose_refl)

text \<open>
  Claim C6. For each of the three topologies and every number of states \<open>n \<ge> 1\<close>, the
  matrix made by \<open>uniform_transitions\<close> and the matrix made by \<open>random_transitions\<close>
  (from any random state, with any sampler whose samples are non-negative, of the requested
  length and sum to one within tolerance) are accepted by \<open>check_transitions\<close> of the same
  topology and \<open>n\<close>: no exception is raised and the matrix itself is returned.
\<close>

theorem generated_transitions_pass_validation:
  assumes "1 \<le> n" "dirichlet_ok dirichlet"
  shows "(\<exists>w. check_transitions kind n (uniform_transitions kind n)
                = Inr (w, uniform_transitions kind n))
       \<and> (\<exists>w. check_transitions kind n (fst (random_transitions dirichlet kind n g))
                = Inr (w, fst (random_transitions dirichlet kind n g)))"
  using assms uniform_passes[of n kind] random_passes[of dirichlet n kind g]
  by (simp add: not_raised)

theorem generated_transitions_pass_validation_witness:
  "(1::nat) \<le> 2 \<and> dirichlet_ok centre_sampler
   \<and> (\<exists>w. check_transitions Linear 2 (uniform_transitions Linear 2)
                = Inr (w, uniform_transitions Linear 2))
   \<and> (\<exists>w. check_transitions Linear 2 (fst (random_transitions centre_sampler Linear 2 (0::nat)))
                = Inr (w, fst (random_transitions centre_sampler Linear 2 0)))"
  using generated_transitions_pass_validation[of 2 centre_sampler Linear 0] centre_sampler_ok
  by simp

text \<open>
  Claim C7. Uniform generation gives exactly: an initial distribution whose entries are all
  \<open>1/n\<close>; an ergodic matrix whose entries are all \<open>1/n\<close>; a left-right matrix whose row
  \<open>i\<close> is \<open>1/(n - i)\<close> on the columns \<open>i, ..., n - 1\<close> and zero before them; a linear
  matrix whose row \<open>i\<close> is \<open>1/2\<close> on the columns \<open>i\<close> and \<open>i + 1\<close> (\<open>1\<close> on column \<open>i\<close>
  in the last row) and zero elsewhere.
\<close>

theorem uniform_generation_exact:
  "uniform_start_probs n = replicate n (1 / real n)
   \<and> uniform_transitions Ergodic n = tab n n (\<lambda>i j. 1 / real n)
   \<and> uniform_transitions LeftRight n = tab n n (\<lambda>i j. if i \<le> j then 1 / real (n - i) else 0)
   \<and> uniform_transitions Linear n =
       tab n n (\<lambda>i j. if j = i \<or> j = Suc i then (if Suc i = n then 1 else 1 / 2) else 0)"
  using uniform_start_probs_eq ergodic_uniform_tab left_right_uniform_tab linear_uniform_tab
  by blast

lemma ergodic_warning:
  assumes "has_shape t n n" "rows_sum_to_one t" "has_zero_entry t"
  shows "check_transitions Ergodic n t = Inr ([Warn_zero_probabilities], t)"
proof -
  have len: "length t = n" using assms(1) by (simp add: has_shape_def)
  from assms(3) obtain i j where "i < length t" "j < length (t ! i)" "t ! i ! j = 0"
    by (auto simp add: has_zero_entry_def entry_exists_iff)
  then have "t ! i \<in> set t \<and> t ! i ! j \<in> set (t ! i) \<and> \<not> 0 < t ! i ! j"
    using nth_mem[of i t] nth_mem[of j "t ! i"] by simp
  then have "\<not> list_all (list_all (\<lambda>x. 0 < x)) t"
    unfolding list_all_iff by blast
  then show ?thesis using assms(1,2) row_sums_close_iff[OF len]
    by (simp add: Ergodic_check_transitions_def Topology_check_transitions_def)
qed

text \<open>
  Claim C8, as amended. \<open>check_transitions\<close> raises exactly when the matrix is not
  \<open>n \<times> n\<close>, or some row does not sum to one within tolerance, or some entry outside the
  topology's zero-pattern is larger in absolute value than the absolute tolerance \<open>1e-8\<close>
  (below the diagonal for left-right; off the diagonal and the first superdiagonal for linear;
  nowhere for ergodic). For the ergodic topology, an \<open>n \<times> n\<close> matrix with valid row sums
  and an entry equal to zero is returned with a warning, not an exception.
\<close>

theorem check_transitions_raises_iff:
  "(isl (check_transitions kind n t) \<longleftrightarrow>
      \<not> has_shape t n n \<or> \<not> rows_sum_to_one t \<or> zero_pattern_exceeded kind t)
   \<and> (has_shape t n n \<and> rows_sum_to_one t \<and> has_zero_entry t \<longrightarrow>
        check_transitions Ergodic n t = Inr ([Warn_zero_probabilities], t))"
  using check_raises_iff[of kind n t] ergodic_warning[of t n] by blast

theorem check_transitions_raises_iff_witness:
  "has_shape [[1, 0], [1 / 2, 1 / 2]] 2 2 \<and> rows_sum_to_one [[1, 0], [1 / 2, 1 / 2]]
   \<and> has_zero_entry [[1, 0], [1 / 2, 1 / 2]]
   \<and> check_transitions Ergodic 2 [[1, 0], [1 / 2, 1 / 2]]
       = Inr ([Warn_zero_probabilities], [[1, 0], [1 / 2, 1 / 2]])
   \<and> isl (check_transitions LeftRight 2 [[1, 0], [1 / 2, 1 / 2]])
   \<and> zero_pattern_exceeded LeftRight [[1, 0], [1 / 2, 1 / 2]]"
proof -
  have h: "has_shape [[1, 0], [1 / 2, 1 / 2]] 2 2 \<and> rows_sum_to_one [[1, 0], [1 / 2, 1 / 2]]
           \<and> has_zero_entry [[1, 0], [1 / 2, 1 / 2]]"
    by (simp add: has_shape_def rows_sum_to_one_def has_zero_entry_def entry_exists_def
        np_isclose_def atol_def rtol_def)
  have z: "zero_pattern_exceeded LeftRight [[1, 0], [1 / 2, 1 / 2]]"
    by (simp add: zero_pattern_exceeded_def entry_exists_def atol_def)
  show ?thesis
    using h z check_transitions_raises_iff[of LeftRight 2 "[[1, 0], [1 / 2, 1 / 2]]"]
    by simp
qed

text \<open>
  Claim C8 as stated, with the zero-pattern read exactly, fails: the left-right check accepts
  a \<open>2 \<times> 2\<close> matrix with \<open>1e-9\<close> below the diagonal.
\<close>

theorem check_transitions_exact_zero_counterexample:
  "\<not> (isl (check_transitions LeftRight 2 [[1, 0], [1 / 1000000000, 1 - 1 / 1000000000]]) \<longleftrightarrow>
        \<not> has_shape [[1, 0], [1 / 1000000000, 1 - 1 / 1000000000]] 2 2
      \<or> \<not> rows_sum_to_one [[1, 0], [1 / 1000000000, 1 - 1 / 1000000000]]
      \<or> zero_pattern_violated LeftRight [[1, 0], [1 / 1000000000, 1 - 1 / 1000000000]])"
  by (simp add: LeftRight_check_transitions_def Topology_check_transitions_def has_shape_def
      rows_sum_to_one_def zero_pattern_violated_def entry_exists_def np_allclose_def
      np_allclose2_def np_isclose_def np_triu_def row_sums_def np_ones_def atol_def rtol_def
      numeral_2_eq_2)

section \<open>Sequencing, chunks and counters\<close>

lemma and_then_Inr [simp]: "and_then (Inr x) f = f x"
  by (simp add: and_then_def)

lemma and_then_Inl [simp]: "and_then (Inl e) f = Inl e"
  by (simp add: and_then_def)

lemma map_err_append:
  "map_err f (xs @ ys) =
     and_then (map_err f xs) (\<lambda>a. and_then (map_err f ys) (\<lambda>b. Inr (a @ b)))"
proof (induction xs)
  case Nil
  show ?case by (cases "map_err f ys") simp_all
next
  case (Cons x xs)
  show ?case
    by (cases "f x"; cases "map_err f xs"; cases "map_err f ys") (simp_all add: Cons)
qed

lemma map_err_length: "map_err f xs = Inr ys \<Longrightarrow> length ys = length xs"
proof (induction xs arbitrary: ys)
  case Nil
  then show ?case by simp
next
  case (Cons x xs)
  then show ?case
    by (cases "f x"; cases "map_err f xs") auto
qed

lemma map_err_all_Inr:
  "(\<And>x. x \<in> set xs \<Longrightarrow> f x = Inr (h x)) \<Longrightarrow> map_err f xs = Inr (map h xs)"
  by (induction xs) simp_all

lemma concat_split_sizes:
  "sum_list ss = length xs \<Longrightarrow> concat (split_sizes ss xs) = xs"
proof (induction ss arbitrary: xs)
  case Nil
  then show ?case by simp
next
  case (Cons s ss)
  then have "sum_list ss = length (drop s xs)" by simp
  then show ?case using Cons.IH by simp
qed

lemma split_sizes_nonempty:
  "sum_list ss = length xs \<Longrightarrow> \<forall>s \<in> set ss. 0 < s \<Longrightarrow> \<forall>c \<in> set (split_sizes ss xs). c \<noteq> []"
proof (induction ss arbitrary: xs)
  case Nil
  then show ?case by simp
next
  case (Cons s ss)
  then have l: "sum_list ss = length (drop s xs)" and p: "0 < s" "s \<le> length xs" by auto
  then have "take s xs \<noteq> []" by auto
  then show ?case using Cons.IH[OF l] Cons.prems(2) by simp
qed

lemma length_split_sizes: "length (split_sizes ss xs) = length ss"
  by (induction ss arbitrary: xs) simp_all

lemma sum_section_sizes: "0 < n \<Longrightarrow> sum_list (section_sizes len n) = len"
proof -
  assume n: "0 < n"
  have le: "len mod n \<le> n" using n by (simp add: less_imp_le)
  have "sum_list (section_sizes len n) =
        (len mod n) * (len div n + 1) + (n - len mod n) * (len div n)"
    by (simp add: section_sizes_def sum_list_replicate)
  also have "\<dots> = len mod n + (len mod n + (n - len mod n)) * (len div n)"
    by (simp add: algebra_simps)
  also have "\<dots> = len mod n + n * (len div n)" using le by simp
  also have "\<dots> = len" by simp
  finally show ?thesis .
qed

lemma section_sizes_pos: "0 < n \<Longrightarrow> n \<le> len \<Longrightarrow> \<forall>s \<in> set (section_sizes len n). 0 < s"
  by (auto simp add: section_sizes_def div_greater_zero_iff)

lemma length_section_sizes: "0 < n \<Longrightarrow> length (section_sizes len n) = n"
  using mod_less_divisor[of n len] by (simp add: section_sizes_def less_imp_le)

lemma array_split_concat:
  "0 < n \<Longrightarrow> \<exists>chunks. np_array_split xs n = Inr chunks \<and> concat chunks = xs \<and> length chunks = n"
  by (simp add: np_array_split_def concat_split_sizes sum_section_sizes length_split_sizes
      length_section_sizes)

lemma array_split_nonempty:
  "0 < n \<Longrightarrow> n \<le> length xs \<Longrightarrow> np_array_split xs n = Inr chunks \<Longrightarrow> \<forall>c \<in> set chunks. c \<noteq> []"
proof -
  assume n: "0 < n" "n \<le> length xs" and c: "np_array_split xs n = Inr chunks"
  have "\<forall>c \<in> set (split_sizes (section_sizes (length xs) n) xs). c \<noteq> []"
    using split_sizes_nonempty[OF sum_section_sizes[OF n(1)] section_sizes_pos[OF n]] .
  then show ?thesis using c n by (simp add: np_array_split_def)
qed

lemma map_err_cong:
  "(\<And>x. x \<in> set xs \<Longrightarrow> f x = h x) \<Longrightarrow> map_err f xs = map_err h xs"
  by (induction xs) simp_all

lemma map_err_concat:
  "and_then (map_err (map_err f) chunks) (\<lambda>parts. Inr (concat parts)) = map_err f (concat chunks)"
proof (induction chunks)
  case Nil
  show ?case by simp
next
  case (Cons c chunks)
  show ?case
    by (cases "map_err f c"; cases "map_err (map_err f) chunks")
       (use Cons[symmetric] in \<open>simp_all add: map_err_append\<close>)
qed

lemma chunk_predict_nonempty:
  assumes "chunk \<noteq> []"
  shows "chunk_predict clf chunk priors = map_err (\<lambda>x. predict_scores clf x priors) chunk"
proof (cases "map_err (\<lambda>x. predict_scores clf x priors) chunk")
  case (Inl e)
  then show ?thesis by (simp add: chunk_predict_def)
next
  case (Inr rows)
  then have "length rows = length chunk" by (rule map_err_length)
  then have "rows \<noteq> []" using assms by auto
  then show ?thesis using Inr by (simp add: chunk_predict_def)
qed

lemma chunks_predict_concat:
  assumes "\<forall>c \<in> set chunks. c \<noteq> []" "concat chunks \<noteq> []"
  shows "and_then (map_err (\<lambda>chunk. chunk_predict clf chunk priors) chunks)
           (\<lambda>parts. Inr (concat parts)) = chunk_predict clf (concat chunks) priors"
proof -
  have "map_err (\<lambda>chunk. chunk_predict clf chunk priors) chunks =
        map_err (map_err (\<lambda>x. predict_scores clf x priors)) chunks"
    using assms(1) by (intro map_err_cong) (simp add: chunk_predict_nonempty)
  then show ?thesis
    by (simp add: map_err_concat chunk_predict_nonempty[OF assms(2)])
qed

lemma batch_scores_any_n:
  assumes "0 < n" "n \<le> length X"
  shows "batch_scores clf X priors n = chunk_predict clf X priors"
proof (cases "n = 1")
  case True
  then show ?thesis by (simp add: batch_scores_def)
next
  case False
  from array_split_concat[OF assms(1), of X] obtain chunks where
    c: "np_array_split X n = Inr chunks" "concat chunks = X" "length chunks = n" by blast
  have ne: "\<forall>c \<in> set chunks. c \<noteq> []" using array_split_nonempty[OF assms c(1)] .
  have "X \<noteq> []" using assms by auto
  then have "concat chunks \<noteq> []" using c(2) by simp
  from chunks_predict_concat[OF ne this, of clf priors] show ?thesis
    using False c by (simp add: batch_scores_def)
qed

lemma batch_scores_clamped:
  assumes "0 < m"
  shows "batch_scores clf X priors (min m (length X)) = batch_scores clf X priors (min 1 (length X))"
proof (cases "X = []")
  case True
  then show ?thesis by simp
next
  case False
  then have l: "0 < length X" by simp
  have a: "batch_scores clf X priors (min m (length X)) = chunk_predict clf X priors"
    using assms l by (intro batch_scores_any_n) simp_all
  have b: "batch_scores clf X priors (min 1 (length X)) = chunk_predict clf X priors"
    using l by (intro batch_scores_any_n) simp_all
  show ?thesis by (simp only: a b)
qed

lemma hmm_parallel_eq:
  assumes "0 < cpu_count" "n_jobs = - 1 \<or> 0 < n_jobs"
  shows "HMMClassifier_predict cpu_count clf X prior return_scores original_labels n_jobs =
         HMMClassifier_predict cpu_count clf X prior return_scores original_labels 1"
proof -
  have "0 < (if n_jobs = - 1 then cpu_count else nat n_jobs)" using assms by auto
  from batch_scores_clamped[OF this, of clf X]
  have s: "\<And>priors. batch_scores clf X priors
              (min (if n_jobs = - 1 then cpu_count else nat n_jobs) (length X)) =
            batch_scores clf X priors (min 1 (length X))" .
  show ?thesis using assms(2)
    by (simp add: HMMClassifier_predict_def Let_def s check_n_jobs_def)
qed

section \<open>Tallies and partial selection\<close>

lemma map_of_counter_add:
  "map_of (counter_add c x) = (map_of c)(x \<mapsto> (case map_of c x of None \<Rightarrow> 1 | Some n \<Rightarrow> Suc n))"
  by (induction c x rule: counter_add.induct) (auto simp add: fun_eq_iff)

lemma fst_counter_add:
  "map fst (counter_add c x) = (if x \<in> fst ` set c then map fst c else map fst c @ [x])"
  by (induction c x rule: counter_add.induct) auto

lemma Counter_snoc: "Counter (xs @ [x]) = counter_add (Counter xs) x"
  by (simp add: Counter_def)

lemma Counter_props:
  "distinct (map fst (Counter xs)) \<and> set (map fst (Counter xs)) = set xs
   \<and> map_of (Counter xs) = (\<lambda>l. if l \<in> set xs then Some (count_list xs l) else None)"
proof (induction xs rule: rev_induct)
  case Nil
  show ?case by (simp add: Counter_def)
next
  case (snoc x xs)
  then have d: "distinct (map fst (Counter xs))"
    and s: "set (map fst (Counter xs)) = set xs"
    and m: "map_of (Counter xs) = (\<lambda>l. if l \<in> set xs then Some (count_list xs l) else None)"
    by simp_all
  have s': "fst ` set (Counter xs) = set xs" using s by simp
  have 1: "distinct (map fst (Counter (xs @ [x])))"
    using d s' by (simp add: Counter_snoc fst_counter_add)
  have 2: "set (map fst (Counter (xs @ [x]))) = set (xs @ [x])"
    using s s' by (auto simp add: Counter_snoc fst_counter_add)
  have 3: "map_of (Counter (xs @ [x])) =
           (\<lambda>l. if l \<in> set (xs @ [x]) then Some (count_list (xs @ [x]) l) else None)"
    by (auto simp add: Counter_snoc map_of_counter_add m fun_eq_iff count_list_0_iff)
  show ?case using 1 2 3 by blast
qed

lemma Counter_mem:
  "(l, v) \<in> set (Counter xs) \<longleftrightarrow> l \<in> set xs \<and> v = count_list xs l"
proof -
  from Counter_props[of xs] have d: "distinct (map fst (Counter xs))"
    and m: "map_of (Counter xs) = (\<lambda>l. if l \<in> set xs then Some (count_list xs l) else None)"
    by blast+
  have "(l, v) \<in> set (Counter xs) \<longleftrightarrow> map_of (Counter xs) l = Some v"
    using map_of_eq_Some_iff[OF d, of l v] by simp
  also have "\<dots> \<longleftrightarrow> l \<in> set xs \<and> v = count_list xs l"
    unfolding m by auto
  finally show ?thesis .
qed

lemma Counter_values: "set (map snd (Counter xs)) = count_list xs ` set xs"
proof -
  have "set (map snd (Counter xs)) = snd ` set (Counter xs)" by simp
  also have "\<dots> = count_list xs ` set xs"
    using Counter_mem[of _ _ xs] by (force simp add: image_iff)
  finally show ?thesis .
qed

lemma py_max_Max: "vs \<noteq> [] \<Longrightarrow> py_max vs = Inr (Max (set vs))"
  by (cases vs) (simp_all add: py_max_def Max.set_eq_fold del: set_simps)

lemma Counter_nonempty: "xs \<noteq> [] \<Longrightarrow> map snd (Counter xs) \<noteq> []"
  using Counter_props[of xs] by (cases "Counter xs") auto

lemma modes_props:
  fixes xs :: "'l list"
  defines "modes \<equiv> map fst (filter (\<lambda>(l, v). v = top_count xs) (Counter xs))"
  shows "distinct modes" "set modes = {l \<in> set xs. count_list xs l = top_count xs}"
proof -
  show "distinct modes"
    unfolding modes_def using Counter_props[of xs] by (simp add: distinct_map_filter)
  show "set modes = {l \<in> set xs. count_list xs l = top_count xs}"
    unfolding modes_def using Counter_mem[of _ _ xs] by (force simp add: image_iff)
qed

lemma is_partition_perm:
  assumes "is_partition a kth p"
  shows "set p = {0..<length a}" "distinct p" "length p = length a"
proof -
  have s: "sort p = [0..<length a]" using assms by (simp add: is_partition_def)
  have "set p = set (sort p)" by simp
  then show "set p = {0..<length a}" unfolding s by simp
  have "distinct p = distinct (sort p)" by simp
  then show "distinct p" unfolding s by simp
  have "length p = length (sort p)" by simp
  then show "length p = length a" unfolding s by simp
qed

lemma partition_selects_smallest:
  assumes "is_partition a kth p" "kth < length a"
  shows "distinct (take kth p)" "length (take kth p) = kth"
    "\<forall>i \<in> set (take kth p). i < length a \<and>
        (\<forall>j<length a. j \<notin> set (take kth p) \<longrightarrow> a ! i \<le> a ! j)"
proof -
  note perm = is_partition_perm[OF assms(1)]
  show "distinct (take kth p)" using perm(2) by simp
  show "length (take kth p) = kth" using perm(3) assms(2) by simp
  have lo: "\<forall>i \<in> set (take kth p). a ! i \<le> a ! (p ! kth)"
    and hi: "\<forall>i \<in> set (drop kth p). a ! (p ! kth) \<le> a ! i"
    using assms(1) by (simp_all add: is_partition_def list_all_iff)
  show "\<forall>i \<in> set (take kth p). i < length a \<and>
        (\<forall>j<length a. j \<notin> set (take kth p) \<longrightarrow> a ! i \<le> a ! j)"
  proof (intro ballI conjI allI impI)
    fix i assume i: "i \<in> set (take kth p)"
    then have "i \<in> set p" by (rule in_set_takeD)
    then show "i < length a" using perm(1) by simp
    fix j assume j: "j < length a" "j \<notin> set (take kth p)"
    have "set p = set (take kth p) \<union> set (drop kth p)"
      by (metis append_take_drop_id set_append)
    then have "j \<in> set (drop kth p)" using j perm(1) by auto
    then have "a ! (p ! kth) \<le> a ! j" using hi by blast
    moreover have "a ! i \<le> a ! (p ! kth)" using lo i by blast
    ultimately show "a ! i \<le> a ! j" by simp
  qed
qed

lemma find_modes_eq:
  assumes ok: "argpartition_ok select" and k: "0 < k" "k < length distances"
    and ly: "length y = length distances"
  shows "find_modes select k y distances =
         Inr (map fst (filter (\<lambda>(l, v). v = top_count (map (\<lambda>i. y ! i) (take k (select distances k))))
                         (Counter (map (\<lambda>i. y ! i) (take k (select distances k))))))"
    and "map_err (py_nth y) (take k (select distances k)) =
         Inr (map (\<lambda>i. y ! i) (take k (select distances k)))"
proof -
  define idx where "idx = take k (select distances k)"
  define nl where "nl = map (\<lambda>i. y ! i) idx"
  have part: "is_partition distances k (select distances k)"
    using ok k(2) by (simp add: argpartition_ok_def)
  note sel = partition_selects_smallest[OF part k(2)]
  have ap: "np_argpartition select distances k = Inr (select distances k)"
    using k(2) by (simp add: np_argpartition_def)
  have "\<And>i. i \<in> set idx \<Longrightarrow> py_nth y i = Inr (y ! i)"
    using sel(3) ly by (simp add: idx_def py_nth_def)
  then have lk: "map_err (py_nth y) idx = Inr nl"
    unfolding nl_def by (rule map_err_all_Inr)
  then show "map_err (py_nth y) (take k (select distances k)) =
         Inr (map (\<lambda>i. y ! i) (take k (select distances k)))"
    by (simp add: idx_def nl_def)
  have "length idx = k" using sel(2) by (simp add: idx_def)
  then have "nl \<noteq> []" using k(1) by (auto simp add: nl_def)
  then have "py_max (map snd (Counter nl)) = Inr (top_count nl)"
    using py_max_Max[OF Counter_nonempty, of nl] Counter_values[of nl]
    by (simp add: top_count_def del: set_map)
  then have "find_modes select k y distances =
        Inr (map fst (filter (\<lambda>(l, v). v = top_count nl) (Counter nl)))"
    using ap lk by (simp add: find_modes_def Let_def idx_def[symmetric])
  then show "find_modes select k y distances =
         Inr (map fst (filter (\<lambda>(l, v). v = top_count (map (\<lambda>i. y ! i) (take k (select distances k))))
                         (Counter (map (\<lambda>i. y ! i) (take k (select distances k))))))"
    by (simp add: idx_def nl_def)
qed

lemma tied_exists: "ls \<noteq> [] \<Longrightarrow> \<exists>l. tied_for_top ls l"
proof -
  assume "ls \<noteq> []"
  then have "Max (count_list ls ` set ls) \<in> count_list ls ` set ls"
    by (intro Max_in) simp_all
  then show ?thesis by (auto simp add: tied_for_top_def top_count_def)
qed

lemma modes_tied:
  fixes ls :: "'l list"
  defines "modes \<equiv> map fst (filter (\<lambda>(l, v). v = top_count ls) (Counter ls))"
  shows "distinct modes" "\<And>l. l \<in> set modes \<longleftrightarrow> tied_for_top ls l"
  using modes_props[of ls] by (auto simp add: modes_def tied_for_top_def)

lemma random_choice_ok:
  assumes "randbelow_ok randbelow" "seq \<noteq> []"
  shows "fst (randbelow g (length seq)) < length seq"
    "random_choice randbelow seq g =
       Inr (seq ! fst (randbelow g (length seq)), snd (randbelow g (length seq)))"
proof -
  show r: "fst (randbelow g (length seq)) < length seq"
    using assms by (simp add: randbelow_ok_def)
  show "random_choice randbelow seq g =
       Inr (seq ! fst (randbelow g (length seq)), snd (randbelow g (length seq)))"
    using assms(2) r by (simp add: random_choice_def py_nth_def split_beta)
qed

lemma argsort_select_ok: "argpartition_ok argsort_select"
  unfolding argpartition_ok_def
proof (intro allI impI)
  fix a :: "real list" and kth
  assume k: "kth < length a"
  define p where "p = sort_key (\<lambda>i. a ! i) [0..<length a]"
  have d: "distinct p" and s: "set p = {0..<length a}" and l: "length p = length a"
    by (simp_all add: p_def)
  have "sorted (sort p)" "distinct (sort p)" "set (sort p) = set [0..<length a]"
    using d s by simp_all
  then have 1: "sort p = [0..<length a]"
    by (intro sorted_distinct_set_unique) simp_all
  have srt: "sorted (map (\<lambda>i. a ! i) p)" by (simp add: p_def)
  have mono: "\<And>m n. m \<le> n \<Longrightarrow> n < length p \<Longrightarrow> a ! (p ! m) \<le> a ! (p ! n)"
    using sorted_nth_mono[OF srt] by fastforce
  have 2: "list_all (\<lambda>i. a ! i \<le> a ! (p ! kth)) (take kth p)"
    unfolding list_all_length using mono[of _ kth] k l by simp
  have 3: "list_all (\<lambda>i. a ! (p ! kth) \<le> a ! i) (drop kth p)"
    unfolding list_all_length using mono[of kth] k l by simp
  show "is_partition a kth (argsort_select a kth)"
    using 1 2 3 by (simp add: is_partition_def argsort_select_def p_def)
qed

lemma list_randbelow_ok: "randbelow_ok list_randbelow"
  by (auto simp add: randbelow_ok_def list_randbelow_def split: list.splits)

lemma classify_unique:
  assumes "randbelow_ok (env_randbelow env)" "query_modes env clf X y q = Inr [l]"
  shows "classify env clf X y q g = Inr (l, snd (env_randbelow env g 1))"
  using random_choice_ok[OF assms(1), of "[l]" g] assms(2)
  by (simp add: classify_def)

lemma classify_loop_unique:
  assumes "randbelow_ok (env_randbelow env)"
    and "\<forall>q \<in> set Q. query_modes env clf X y q = Inr [m q]"
  shows "\<exists>g'. classify_loop env clf X y Q g = Inr (map m Q, g')"
  using assms(2)
proof (induction Q arbitrary: g)
  case Nil
  show ?case by simp
next
  case (Cons q Q)
  then have q: "query_modes env clf X y q = Inr [m q]" by simp
  from Cons obtain g' where
    "classify_loop env clf X y Q (snd (env_randbelow env g 1)) = Inr (map m Q, g')"
    by fastforce
  then show ?case using classify_unique[OF assms(1) q, of g] by simp
qed

lemma knn_parallel_labels:
  assumes d: "knn_data knn = Some (X, y)" and nj: "n_jobs = - 1 \<or> 0 < n_jobs"
    and cpu: "0 < env_cpu_count env" and rb: "randbelow_ok (env_randbelow env)"
    and u: "\<forall>q \<in> set Q. query_modes env knn X y q = Inr [m q]"
  shows "\<exists>g'. DTWKNN_predict env knn Q n_jobs g worker_rng = Inr (map m Q, g')"
proof (cases "n_jobs = 1")
  case True
  then show ?thesis using classify_loop_unique[OF rb u, of g] d
    by (simp add: DTWKNN_predict_def check_n_jobs_def)
next
  case False
  define n where "n = (if n_jobs = - 1 then env_cpu_count env else nat n_jobs)"
  have "0 < n" using nj cpu by (auto simp add: n_def)
  from array_split_concat[OF this, of Q] obtain chunks where
    c: "np_array_split Q n = Inr chunks" "concat chunks = Q" by blast
  have "\<And>ic. ic \<in> set (enumerate 0 chunks) \<Longrightarrow>
          (\<lambda>(i, chunk). and_then (classify_loop env knn X y chunk (worker_rng i))
                            (\<lambda>(labels, _). Inr labels)) ic
          = Inr ((\<lambda>(i, chunk). map m chunk) ic)"
  proof -
    fix ic assume a: "ic \<in> set (enumerate 0 chunks)"
    obtain i chunk where ic: "ic = (i, chunk)" by (cases ic)
    with a have "chunk \<in> set chunks" by (auto simp add: in_set_enumerate_eq)
    then have "set chunk \<subseteq> set Q" using c(2) by auto
    then have "\<forall>q \<in> set chunk. query_modes env knn X y q = Inr [m q]" using u by blast
    from classify_loop_unique[OF rb this, of "worker_rng i"] show
      "(\<lambda>(i, chunk). and_then (classify_loop env knn X y chunk (worker_rng i))
                            (\<lambda>(labels, _). Inr labels)) ic
          = Inr ((\<lambda>(i, chunk). map m chunk) ic)"
      using ic by auto
  qed
  then have "map_err (\<lambda>(i, chunk). and_then (classify_loop env knn X y chunk (worker_rng i))
                            (\<lambda>(labels, _). Inr labels)) (enumerate 0 chunks)
             = Inr (map (\<lambda>(i, chunk). map m chunk) (enumerate 0 chunks))"
    by (rule map_err_all_Inr)
  moreover have "map (\<lambda>(i, chunk). map m chunk) (enumerate 0 chunks) = map (map m) chunks"
  proof -
    have "map (\<lambda>(i, chunk). map m chunk) (enumerate 0 chunks) =
          map (map m) (map snd (enumerate 0 chunks))"
      by (simp only: map_map o_def case_prod_unfold)
    then show ?thesis by simp
  qed
  moreover have "concat (map (map m) chunks) = map m Q"
    using map_concat[of m chunks] c(2) by simp
  ultimately show ?thesis using False d nj c(1)
    by (simp add: DTWKNN_predict_def check_n_jobs_def n_def[symmetric] Let_def)
qed

section \<open>The nearest-neighbour decision\<close>

lemma predict_single_unfold:
  assumes "knn_data clf = Some (X, y)" "n_jobs = - 1 \<or> 0 < n_jobs"
  shows "DTWKNN_predict_single env clf q n_jobs g = classify env clf X y q g"
  using assms by (simp add: DTWKNN_predict_single_def check_n_jobs_def)

lemmas knn_eval =
  DTWKNN_predict_def DTWKNN_predict_single_def check_n_jobs_def and_then_def
  classify_def query_modes_def query_distances_def find_modes_def np_argpartition_def
  argsort_select_def py_nth_def Counter_def py_max_def random_choice_def list_randbelow_def
  abs_env_def

lemma aba_modes_5: "query_modes abs_env knn_aba [0, 5, 9] [''a'', ''b'', ''a''] 5 = Inr [''b'']"
  by (simp add: knn_eval knn_aba_def upt_rec)

lemma aba_modes_0: "query_modes abs_env knn_aba [0, 5, 9] [''a'', ''b'', ''a''] 0 = Inr [''a'']"
  by (simp add: knn_eval knn_aba_def upt_rec)

lemma abs_env_ok:
  "argpartition_ok (env_argpartition abs_env)" "randbelow_ok (env_randbelow abs_env)"
  "0 < env_cpu_count abs_env"
  by (simp_all add: abs_env_def argsort_select_ok list_randbelow_ok)

lemma map_err_fails:
  assumes "\<exists>x \<in> set xs. f x = Inl e" and "\<forall>x \<in> set xs. f x = Inl e \<or> (\<exists>y. f x = Inr y)"
  shows "map_err f xs = Inl e"
  using assms
proof (induction xs)
  case Nil
  then show ?case by simp
next
  case (Cons x xs)
  show ?case
  proof (cases "f x")
    case (Inl e')
    then have "e' = e" using Cons.prems(2) by auto
    then show ?thesis using Inl by simp
  next
    case (Inr y)
    then have "\<exists>x \<in> set xs. f x = Inl e" using Cons.prems(1) by auto
    moreover have "\<forall>x \<in> set xs. f x = Inl e \<or> (\<exists>y. f x = Inr y)" using Cons.prems(2) by simp
    ultimately have "map_err f xs = Inl e" by (rule Cons.IH)
    then show ?thesis using Inr by simp
  qed
qed

lemma classify_k_too_large:
  assumes "length X \<le> knn_k clf"
  shows "classify env clf X y q g = Inl ValueError_kth_out_of_bounds"
  using assms
  by (simp add: classify_def query_modes_def find_modes_def np_argpartition_def
      query_distances_def)

lemma classify_loop_k_too_large:
  assumes "length X \<le> knn_k clf"
  shows "classify_loop env clf X y Q g =
         (if Q = [] then Inr ([], g) else Inl ValueError_kth_out_of_bounds)"
  by (cases Q) (simp_all add: classify_k_too_large[OF assms])

lemma predict_k_too_large:
  assumes d: "knn_data clf = Some (X, y)" and k: "length X \<le> knn_k clf"
    and nj: "n_jobs = - 1 \<or> 0 < n_jobs" and cpu: "0 < env_cpu_count env"
  shows "DTWKNN_predict env clf (q # Q) n_jobs g worker_rng = Inl ValueError_kth_out_of_bounds"
proof (cases "n_jobs = 1")
  case True
  then show ?thesis using d by (simp add: DTWKNN_predict_def check_n_jobs_def
        classify_k_too_large[OF k])
next
  case False
  define n where "n = (if n_jobs = - 1 then env_cpu_count env else nat n_jobs)"
  have "0 < n" using nj cpu by (auto simp add: n_def)
  from array_split_concat[OF this, of "q # Q"] obtain chunks where
    c: "np_array_split (q # Q) n = Inr chunks" "concat chunks = q # Q" by blast
  let ?f = "\<lambda>(i, chunk). and_then (classify_loop env clf X y chunk (worker_rng i))
                            (\<lambda>(labels, _). Inr labels)"
  have each: "\<And>i chunk. ?f (i, chunk) =
               (if chunk = [] then Inr [] else Inl ValueError_kth_out_of_bounds)"
    by (simp add: classify_loop_k_too_large[OF k])
  have "concat chunks \<noteq> []" using c(2) by simp
  then have "\<exists>chunk \<in> set chunks. chunk \<noteq> []" by (simp add: concat_eq_Nil_conv)
  then obtain chunk where ch: "chunk \<in> set chunks" "chunk \<noteq> []" by blast
  from ch(1) obtain i where i: "i < length chunks" "chunks ! i = chunk"
    by (auto simp add: in_set_conv_nth)
  then have "(i, chunk) \<in> set (enumerate 0 chunks)"
    by (simp add: in_set_enumerate_eq)
  then have 1: "\<exists>ic \<in> set (enumerate 0 chunks). ?f ic = Inl ValueError_kth_out_of_bounds"
    using each ch(2) by (intro bexI[of _ "(i, chunk)"]) simp_all
  have 2: "\<forall>ic \<in> set (enumerate 0 chunks).
             ?f ic = Inl ValueError_kth_out_of_bounds \<or> (\<exists>y. ?f ic = Inr y)"
    using each by (auto simp add: case_prod_unfold)
  have "map_err ?f (enumerate 0 chunks) = Inl ValueError_kth_out_of_bounds"
    using 1 2 by (rule map_err_fails)
  then show ?thesis using False d nj c(1)
    by (simp add: DTWKNN_predict_def check_n_jobs_def n_def[symmetric] Let_def)
qed

lemma query_modes_ok:
  assumes "length X = length y" "0 < knn_k clf" "knn_k clf < length X"
    "argpartition_ok (env_argpartition env)"
  shows "\<exists>modes. query_modes env clf X y q = Inr modes \<and> modes \<noteq> [] \<and> distinct modes
           \<and> (\<forall>l. l \<in> set modes \<longleftrightarrow> tied_for_top (neighbor_labels env clf X y q) l)"
proof -
  define ds where "ds = query_distances env clf X q"
  define nl where "nl = neighbor_labels env clf X y q"
  define modes where "modes = map fst (filter (\<lambda>(l, v). v = top_count nl) (Counter nl))"
  have lds: "length ds = length X" by (simp add: ds_def query_distances_def)
  have k: "knn_k clf < length ds" using assms(3) lds by simp
  have ly: "length y = length ds" using assms(1) lds by simp
  have qm: "query_modes env clf X y q = Inr modes"
    using find_modes_eq(1)[OF assms(4) assms(2) k ly]
    by (simp add: query_modes_def modes_def nl_def neighbor_labels_def neighbors_def ds_def)
  have part: "is_partition ds (knn_k clf) (env_argpartition env ds (knn_k clf))"
    using assms(4) k by (simp add: argpartition_ok_def)
  have "length (neighbors env clf X q) = knn_k clf"
    using partition_selects_smallest(2)[OF part k] by (simp add: neighbors_def ds_def)
  then have "nl \<noteq> []" using assms(2) by (auto simp add: nl_def neighbor_labels_def)
  from tied_exists[OF this] obtain l0 where l0: "tied_for_top nl l0" ..
  have md: "distinct modes" and ms: "\<And>l. l \<in> set modes \<longleftrightarrow> tied_for_top nl l"
    using modes_tied[where ls = nl] by (simp_all add: modes_def)
  have ne: "modes \<noteq> []" using ms[of l0] l0 by auto
  show ?thesis using qm ne md ms unfolding nl_def by blast
qed

lemma classify_ok:
  assumes "length X = length y" "0 < knn_k clf" "knn_k clf < length X"
    "argpartition_ok (env_argpartition env)" "randbelow_ok (env_randbelow env)"
  shows "\<exists>l g'. classify env clf X y q g = Inr (l, g')"
proof -
  from query_modes_ok[OF assms(1-4), of q] obtain modes where
    m: "query_modes env clf X y q = Inr modes" "modes \<noteq> []" by blast
  show ?thesis using random_choice_ok(2)[OF assms(5) m(2), of g] m(1)
    by (simp add: classify_def)
qed

lemma classify_loop_ok:
  assumes "length X = length y" "0 < knn_k clf" "knn_k clf < length X"
    "argpartition_ok (env_argpartition env)" "randbelow_ok (env_randbelow env)"
  shows "\<exists>labels g'. classify_loop env clf X y Q g = Inr (labels, g') \<and> length labels = length Q"
proof (induction Q arbitrary: g)
  case Nil
  show ?case by simp
next
  case (Cons q Q)
  from classify_ok[OF assms, of q g] obtain l g1 where
    c: "classify env clf X y q g = Inr (l, g1)" by blast
  from Cons[of g1] obtain labels g2 where
    "classify_loop env clf X y Q g1 = Inr (labels, g2)" "length labels = length Q" by blast
  then show ?case using c by simp
qed

lemma predict_ok:
  assumes d: "knn_data clf = Some (X, y)" and l: "length X = length y"
    and k: "0 < knn_k clf" "knn_k clf < length X"
    and ap: "argpartition_ok (env_argpartition env)" and rb: "randbelow_ok (env_randbelow env)"
    and nj: "n_jobs = - 1 \<or> 0 < n_jobs" and cpu: "0 < env_cpu_count env"
  shows "\<exists>labels g'. DTWKNN_predict env clf Q n_jobs g worker_rng = Inr (labels, g')
           \<and> length labels = length Q"
proof (cases "n_jobs = 1")
  case True
  then show ?thesis using classify_loop_ok[OF l k ap rb, of Q g] d
    by (simp add: DTWKNN_predict_def check_n_jobs_def)
next
  case False
  define n where "n = (if n_jobs = - 1 then env_cpu_count env else nat n_jobs)"
  have "0 < n" using nj cpu by (auto simp add: n_def)
  from array_split_concat[OF this, of Q] obtain chunks where
    c: "np_array_split Q n = Inr chunks" "concat chunks = Q" by blast
  let ?f = "\<lambda>(i, chunk). and_then (classify_loop env clf X y chunk (worker_rng i))
                            (\<lambda>(labels, _). Inr labels)"
  define h where "h = (\<lambda>(i, chunk). fst (projr (classify_loop env clf X y chunk (worker_rng i))))"
  have fh: "\<And>ic. ic \<in> set (enumerate 0 chunks) \<Longrightarrow> ?f ic = Inr (h ic)"
  proof -
    fix ic :: "nat \<times> 'a list"
    obtain i chunk where ic: "ic = (i, chunk)" by (cases ic)
    from classify_loop_ok[OF l k ap rb, of chunk "worker_rng i"] obtain labels g' where
      "classify_loop env clf X y chunk (worker_rng i) = Inr (labels, g')" by blast
    then show "?f ic = Inr (h ic)" by (simp add: ic h_def)
  qed
  have lh: "\<And>i chunk. length (h (i, chunk)) = length chunk"
  proof -
    fix i and chunk :: "'a list"
    from classify_loop_ok[OF l k ap rb, of chunk "worker_rng i"] obtain labels g' where
      "classify_loop env clf X y chunk (worker_rng i) = Inr (labels, g')"
      "length labels = length chunk" by blast
    then show "length (h (i, chunk)) = length chunk" by (simp add: h_def)
  qed
  have me: "map_err ?f (enumerate 0 chunks) = Inr (map h (enumerate 0 chunks))"
    using fh by (rule map_err_all_Inr)
  have lh': "\<And>ic. length (h ic) = length (snd ic)"
  proof -
    fix ic :: "nat \<times> 'a list"
    show "length (h ic) = length (snd ic)" using lh[of "fst ic" "snd ic"] by simp
  qed
  have "length (concat (map h (enumerate 0 chunks))) =
        sum_list (map (\<lambda>ic. length (snd ic)) (enumerate 0 chunks))"
    by (simp add: length_concat o_def lh')
  also have "\<dots> = sum_list (map length (map snd (enumerate 0 chunks)))"
    by (simp only: map_map o_def)
  also have "\<dots> = length (concat chunks)" by (simp add: length_concat)
  finally have len: "length (concat (map h (enumerate 0 chunks))) = length Q" using c(2) by simp
  show ?thesis using False d nj c(1) me len
    by (simp add: DTWKNN_predict_def check_n_jobs_def n_def[symmetric] Let_def)
qed

lemma distinct_index_card:
  assumes "distinct xs" "l \<in> set xs"
  shows "card {r. r < length xs \<and> xs ! r = l} = 1"
proof -
  from assms(2) obtain i where i: "i < length xs" "xs ! i = l"
    by (auto simp add: in_set_conv_nth)
  have "{r. r < length xs \<and> xs ! r = l} = {i}"
    using i nth_eq_iff_index_eq[OF assms(1)] by auto
  then show ?thesis by simp
qed

text \<open>
  Where the decision rule holds. For a fitted classifier with \<open>k\<close> smaller than the number
  \<open>N\<close> of reference sequences, and every query: the partial selection keeps \<open>k\<close> distinct
  reference indices, none farther from the query than any index left out; \<^verbatim>\<open>find_modes\<close>
  returns a list \<open>modes\<close>, the same for every state of the generator, that holds each label
  reaching the highest tally exactly once; and for every state \<open>g\<close> of the generator
  \<^verbatim>\<open>predict\<close> returns \<open>modes ! r\<close> for the draw \<open>r\<close> that the generator makes from \<open>g\<close> below
  \<open>length modes\<close>. The draws below \<open>length modes\<close> and the tied labels correspond one to
  one, so a uniform draw gives a uniform choice among the tied labels; a label that alone
  has the highest tally is the only mode.
\<close>

lemma knn_predict_modal_label:
  assumes "knn_data clf = Some (X, y)" and "length X = length y"
    and "0 < knn_k clf" and "knn_k clf < length X"
    and "argpartition_ok (env_argpartition env)" and "randbelow_ok (env_randbelow env)"
    and "n_jobs = - 1 \<or> 0 < n_jobs"
  shows "\<exists>modes.
      query_modes env clf X y q = Inr modes \<and> modes \<noteq> [] \<and> distinct modes
      \<and> (\<forall>l. l \<in> set modes \<longleftrightarrow> tied_for_top (neighbor_labels env clf X y q) l)
      \<and> length modes = card {l. tied_for_top (neighbor_labels env clf X y q) l}
      \<and> (\<forall>l. tied_for_top (neighbor_labels env clf X y q) l
              \<longrightarrow> card {r. r < length modes \<and> modes ! r = l} = 1)
      \<and> (\<forall>g. fst (env_randbelow env g (length modes)) < length modes
              \<and> DTWKNN_predict_single env clf q n_jobs g
                  = Inr (modes ! fst (env_randbelow env g (length modes)),
                         snd (env_randbelow env g (length modes))))
      \<and> (\<forall>l. (\<forall>l'. tied_for_top (neighbor_labels env clf X y q) l' \<longrightarrow> l' = l)
              \<longrightarrow> modes = [l])
      \<and> distinct (neighbors env clf X q) \<and> length (neighbors env clf X q) = knn_k clf
      \<and> (\<forall>i \<in> set (neighbors env clf X q). i < length X
            \<and> (\<forall>j<length X. j \<notin> set (neighbors env clf X q)
                  \<longrightarrow> query_distances env clf X q ! i \<le> query_distances env clf X q ! j))"
proof -
  define ds where "ds = query_distances env clf X q"
  define nl where "nl = neighbor_labels env clf X y q"
  from query_modes_ok[OF assms(2-5), of q] obtain modes where
    qm: "query_modes env clf X y q = Inr modes" and ne: "modes \<noteq> []" and md: "distinct modes"
    and ms: "\<forall>l. l \<in> set modes \<longleftrightarrow> tied_for_top nl l"
    unfolding nl_def by blast
  have lds: "length ds = length X" by (simp add: ds_def query_distances_def)
  have k: "knn_k clf < length ds" using assms(4) lds by simp
  have part: "is_partition ds (knn_k clf) (env_argpartition env ds (knn_k clf))"
    using assms(5) k by (simp add: argpartition_ok_def)
  note sel = partition_selects_smallest[OF part k]
  have nb: "neighbors env clf X q = take (knn_k clf) (env_argpartition env ds (knn_k clf))"
    by (simp add: neighbors_def ds_def)
  have st: "set modes = {l. tied_for_top nl l}" using ms by auto
  have c1: "length modes = card {l. tied_for_top nl l}"
    using distinct_card[OF md] st by simp
  have c2: "\<forall>l. tied_for_top nl l \<longrightarrow> card {r. r < length modes \<and> modes ! r = l} = 1"
    using distinct_index_card[OF md] ms by blast
  have pr: "\<forall>g. fst (env_randbelow env g (length modes)) < length modes
              \<and> DTWKNN_predict_single env clf q n_jobs g
                  = Inr (modes ! fst (env_randbelow env g (length modes)),
                         snd (env_randbelow env g (length modes)))"
  proof
    fix g
    show "fst (env_randbelow env g (length modes)) < length modes
              \<and> DTWKNN_predict_single env clf q n_jobs g
                  = Inr (modes ! fst (env_randbelow env g (length modes)),
                         snd (env_randbelow env g (length modes)))"
      using random_choice_ok[OF assms(6) ne, of g] qm
      by (simp add: predict_single_unfold[OF assms(1) assms(7)] classify_def)
  qed
  have un: "\<forall>l. (\<forall>l'. tied_for_top nl l' \<longrightarrow> l' = l) \<longrightarrow> modes = [l]"
  proof (intro allI impI)
    fix l assume u: "\<forall>l'. tied_for_top nl l' \<longrightarrow> l' = l"
    then have "set modes \<subseteq> {l}" using ms by auto
    then have "set modes = {l}" using ne by (cases modes) auto
    then have "length modes = 1" using distinct_card[OF md] by simp
    then show "modes = [l]" using \<open>set modes = {l}\<close> by (cases modes) auto
  qed
  show ?thesis
    using qm ne md ms c1 c2 pr un sel lds unfolding nb nl_def[symmetric] ds_def[symmetric]
    by (intro exI[of _ modes]) simp
qed

text \<open>
  The decision rule at a concrete input: three references labelled a, b, a, \<open>k = 1\<close>, and a
  query equal to the reference labelled b.
\<close>

lemma knn_predict_modal_label_example:
  "knn_data knn_aba = Some ([0, 5, 9], [''a'', ''b'', ''a''])
   \<and> 0 < knn_k knn_aba \<and> knn_k knn_aba < length [0, 5, 9 :: nat]
   \<and> argpartition_ok (env_argpartition abs_env) \<and> randbelow_ok (env_randbelow abs_env)
   \<and> query_modes abs_env knn_aba [0, 5, 9] [''a'', ''b'', ''a''] 5 = Inr [''b'']
   \<and> (\<forall>g. DTWKNN_predict_single abs_env knn_aba 5 1 g
              = Inr (''b'', snd (env_randbelow abs_env g 1)))
   \<and> neighbors abs_env knn_aba [0, 5, 9] 5 = [1]
   \<and> tied_for_top (neighbor_labels abs_env knn_aba [0, 5, 9] [''a'', ''b'', ''a''] 5) ''b''"
proof -
  have d: "knn_data knn_aba = Some ([0, 5, 9], [''a'', ''b'', ''a''])" "0 < knn_k knn_aba"
    "knn_k knn_aba < length [0, 5, 9 :: nat]"
    by (simp_all add: knn_aba_def)
  have l: "length [0, 5, 9 :: nat] = length [''a'', ''b'', ''a'']" by simp
  have j: "(1::int) = - 1 \<or> 0 < (1::int)" by simp
  have n: "neighbors abs_env knn_aba [0, 5, 9] 5 = [1]"
    by (simp add: neighbors_def knn_eval knn_aba_def upt_rec)
  from knn_predict_modal_label[OF d(1) l d(2) d(3) abs_env_ok(1) abs_env_ok(2) j,
      where q = 5]
  obtain modes where
    m: "query_modes abs_env knn_aba [0, 5, 9] [''a'', ''b'', ''a''] 5 = Inr modes"
      "\<forall>l. l \<in> set modes \<longleftrightarrow>
           tied_for_top (neighbor_labels abs_env knn_aba [0, 5, 9] [''a'', ''b'', ''a''] 5) l"
      "\<forall>g. fst (env_randbelow abs_env g (length modes)) < length modes
              \<and> DTWKNN_predict_single abs_env knn_aba 5 1 g
                  = Inr (modes ! fst (env_randbelow abs_env g (length modes)),
                         snd (env_randbelow abs_env g (length modes)))"
    by blast
  from m(1) aba_modes_5 have mb: "modes = [''b'']" by simp
  have t: "tied_for_top (neighbor_labels abs_env knn_aba [0, 5, 9] [''a'', ''b'', ''a''] 5) ''b''"
  proof -
    from m(2) have "''b'' \<in> set modes \<longleftrightarrow>
        tied_for_top (neighbor_labels abs_env knn_aba [0, 5, 9] [''a'', ''b'', ''a''] 5) ''b''"
      by blast
    then show ?thesis using mb by simp
  qed
  have p: "\<forall>g. DTWKNN_predict_single abs_env knn_aba 5 1 g
              = Inr (''b'', snd (env_randbelow abs_env g 1))"
    using m(3) mb by simp
  show ?thesis using d abs_env_ok aba_modes_5 n t p by simp
qed

text \<open>
  Claim C5 at one reference sequence and \<open>k = 1\<close>. The constructor and \<^verbatim>\<open>fit\<close> succeed; the
  one reference is the nearest neighbour of any query and its label the only candidate; and
  \<^verbatim>\<open>predict\<close> raises, on a single query and on a batch, where the claim says that this
  label is returned: the partial selection is asked for position \<open>k\<close>, which exists only
  when \<open>k < N\<close>, although only the \<open>k\<close> entries before it are used.
\<close>

theorem knn_predict_raises_with_k_equal_N:
  "and_then (DTWKNN_init 1 1) (\<lambda>c. DTWKNN_fit c [0 :: nat] [''a'']) = Inr knn_one
   \<and> query_distances abs_env knn_one [0] 0 = [0]
   \<and> DTWKNN_predict_single abs_env knn_one 0 1 [] = Inl ValueError_kth_out_of_bounds
   \<and> DTWKNN_predict abs_env knn_one [0] 1 [] (\<lambda>_. []) = Inl ValueError_kth_out_of_bounds"
  by (simp add: DTWKNN_init_def DTWKNN_fit_def observation_sequences_and_labels_def knn_one_def
      knn_eval)

text \<open>
  Claim C10. The constructor and \<^verbatim>\<open>fit\<close> accept every \<open>k \<ge> 1\<close> whatever the number \<open>N\<close> of
  reference sequences. When \<open>k \<ge> N\<close>, \<^verbatim>\<open>find_modes\<close> raises (the index given to the partial
  selection is out of bounds), and so does \<^verbatim>\<open>predict\<close> on any query and on any non-empty
  batch, for every number of jobs. When \<open>k < N\<close>, the partial selection returns, every index
  that \<^verbatim>\<open>find_modes\<close> keeps is a valid index into the stored labels, the lookup of the
  neighbour labels succeeds, \<^verbatim>\<open>find_modes\<close> returns modal labels taken from them, and
  \<^verbatim>\<open>predict\<close> returns a label for a query and one label for each query of a batch.
\<close>

theorem knn_k_against_reference_count:
  assumes "0 < k" and "0 < radius" and "length X = length y"
  shows "\<exists>clf. and_then (DTWKNN_init k radius) (\<lambda>c. DTWKNN_fit c X y) = Inr clf
      \<and> knn_k clf = nat k \<and> knn_data clf = Some (X, y)
      \<and> (length X \<le> nat k \<and> (n_jobs = - 1 \<or> 0 < n_jobs) \<and> 0 < env_cpu_count env \<longrightarrow>
            find_modes (env_argpartition env) (knn_k clf) y (query_distances env clf X q)
              = Inl ValueError_kth_out_of_bounds
          \<and> DTWKNN_predict_single env clf q n_jobs g = Inl ValueError_kth_out_of_bounds
          \<and> DTWKNN_predict env clf (q # Q) n_jobs g worker_rng = Inl ValueError_kth_out_of_bounds)
      \<and> (nat k < length X \<and> argpartition_ok (env_argpartition env) \<longrightarrow>
            np_argpartition (env_argpartition env) (query_distances env clf X q) (knn_k clf)
              = Inr (env_argpartition env (query_distances env clf X q) (knn_k clf))
          \<and> list_all (\<lambda>i. i < length y) (neighbors env clf X q)
          \<and> map_err (py_nth y) (neighbors env clf X q) = Inr (neighbor_labels env clf X y q)
          \<and> (\<exists>modes. find_modes (env_argpartition env) (knn_k clf) y (query_distances env clf X q)
                        = Inr modes
                \<and> modes \<noteq> [] \<and> set modes \<subseteq> set (neighbor_labels env clf X y q)
                \<and> (randbelow_ok (env_randbelow env) \<and> (n_jobs = - 1 \<or> 0 < n_jobs)
                      \<and> 0 < env_cpu_count env \<longrightarrow>
                     (\<exists>l g'. DTWKNN_predict_single env clf q n_jobs g = Inr (l, g')
                             \<and> l \<in> set modes)
                   \<and> (\<exists>labels g'. DTWKNN_predict env clf Q n_jobs g worker_rng = Inr (labels, g')
                             \<and> length labels = length Q))))"
proof -
  define clf :: "('a, 'b) DTWKNN" where
    "clf = \<lparr>knn_k = nat k, knn_radius = nat radius, knn_data = Some (X, y)\<rparr>"
  have fit: "and_then (DTWKNN_init k radius) (\<lambda>c. DTWKNN_fit c X y) = Inr clf"
    using assms by (simp add: DTWKNN_init_def DTWKNN_fit_def observation_sequences_and_labels_def
        clf_def)
  have sel: "knn_k clf = nat k" "knn_data clf = Some (X, y)" by (simp_all add: clf_def)
  have kpos: "0 < knn_k clf" using assms(1) sel(1) by simp
  have big: "length X \<le> nat k \<and> (n_jobs = - 1 \<or> 0 < n_jobs) \<and> 0 < env_cpu_count env \<longrightarrow>
            find_modes (env_argpartition env) (knn_k clf) y (query_distances env clf X q)
              = Inl ValueError_kth_out_of_bounds
          \<and> DTWKNN_predict_single env clf q n_jobs g = Inl ValueError_kth_out_of_bounds
          \<and> DTWKNN_predict env clf (q # Q) n_jobs g worker_rng = Inl ValueError_kth_out_of_bounds"
  proof (intro impI, elim conjE)
    assume kn: "length X \<le> nat k" and nj: "n_jobs = - 1 \<or> 0 < n_jobs"
      and cpu: "0 < env_cpu_count env"
    have kn': "length X \<le> knn_k clf" using kn sel(1) by simp
    have 1: "find_modes (env_argpartition env) (knn_k clf) y (query_distances env clf X q)
              = Inl ValueError_kth_out_of_bounds"
      using kn' by (simp add: find_modes_def np_argpartition_def query_distances_def)
    have 2: "DTWKNN_predict_single env clf q n_jobs g = Inl ValueError_kth_out_of_bounds"
      using classify_k_too_large[OF kn'] by (simp add: predict_single_unfold[OF sel(2) nj])
    have 3: "DTWKNN_predict env clf (q # Q) n_jobs g worker_rng = Inl ValueError_kth_out_of_bounds"
      by (rule predict_k_too_large[OF sel(2) kn' nj cpu])
    show "find_modes (env_argpartition env) (knn_k clf) y (query_distances env clf X q)
              = Inl ValueError_kth_out_of_bounds
          \<and> DTWKNN_predict_single env clf q n_jobs g = Inl ValueError_kth_out_of_bounds
          \<and> DTWKNN_predict env clf (q # Q) n_jobs g worker_rng = Inl ValueError_kth_out_of_bounds"
      using 1 2 3 by simp
  qed
  have small: "nat k < length X \<and> argpartition_ok (env_argpartition env) \<longrightarrow>
            np_argpartition (env_argpartition env) (query_distances env clf X q) (knn_k clf)
              = Inr (env_argpartition env (query_distances env clf X q) (knn_k clf))
          \<and> list_all (\<lambda>i. i < length y) (neighbors env clf X q)
          \<and> map_err (py_nth y) (neighbors env clf X q) = Inr (neighbor_labels env clf X y q)
          \<and> (\<exists>modes. find_modes (env_argpartition env) (knn_k clf) y (query_distances env clf X q)
                        = Inr modes
                \<and> modes \<noteq> [] \<and> set modes \<subseteq> set (neighbor_labels env clf X y q)
                \<and> (randbelow_ok (env_randbelow env) \<and> (n_jobs = - 1 \<or> 0 < n_jobs)
                      \<and> 0 < env_cpu_count env \<longrightarrow>
                     (\<exists>l g'. DTWKNN_predict_single env clf q n_jobs g = Inr (l, g')
                             \<and> l \<in> set modes)
                   \<and> (\<exists>labels g'. DTWKNN_predict env clf Q n_jobs g worker_rng = Inr (labels, g')
                             \<and> length labels = length Q)))"
  proof (intro impI, elim conjE)
    assume kn: "nat k < length X" and ok: "argpartition_ok (env_argpartition env)"
    define ds where "ds = query_distances env clf X q"
    have lds: "length ds = length X" by (simp add: ds_def query_distances_def)
    have k: "knn_k clf < length ds" using kn lds sel(1) by simp
    have kX: "knn_k clf < length X" using kn sel(1) by simp
    have ly: "length y = length ds" using assms(3) lds by simp
    have part: "is_partition ds (knn_k clf) (env_argpartition env ds (knn_k clf))"
      using ok k by (simp add: argpartition_ok_def)
    note s = partition_selects_smallest[OF part k]
    have nb: "neighbors env clf X q = take (knn_k clf) (env_argpartition env ds (knn_k clf))"
      by (simp add: neighbors_def ds_def)
    have 0: "np_argpartition (env_argpartition env) ds (knn_k clf)
              = Inr (env_argpartition env ds (knn_k clf))"
      using k by (simp add: np_argpartition_def)
    have 1: "list_all (\<lambda>i. i < length y) (neighbors env clf X q)"
      unfolding nb list_all_iff using s(3) ly by simp
    have 2: "map_err (py_nth y) (neighbors env clf X q) = Inr (neighbor_labels env clf X y q)"
      using find_modes_eq(2)[OF ok kpos k ly] by (simp add: nb neighbor_labels_def)
    from query_modes_ok[OF assms(3) kpos kX ok, of q] obtain modes where
      qm: "query_modes env clf X y q = Inr modes" and ne: "modes \<noteq> []"
      and ms: "\<forall>l. l \<in> set modes \<longleftrightarrow> tied_for_top (neighbor_labels env clf X y q) l"
      by blast
    have fm: "find_modes (env_argpartition env) (knn_k clf) y ds = Inr modes"
      using qm by (simp add: query_modes_def ds_def)
    have sub: "set modes \<subseteq> set (neighbor_labels env clf X y q)"
      using ms by (auto simp add: tied_for_top_def)
    have run: "randbelow_ok (env_randbelow env) \<and> (n_jobs = - 1 \<or> 0 < n_jobs)
                      \<and> 0 < env_cpu_count env \<longrightarrow>
                     (\<exists>l g'. DTWKNN_predict_single env clf q n_jobs g = Inr (l, g')
                             \<and> l \<in> set modes)
                   \<and> (\<exists>labels g'. DTWKNN_predict env clf Q n_jobs g worker_rng = Inr (labels, g')
                             \<and> length labels = length Q)"
    proof (intro impI, elim conjE)
      assume rb: "randbelow_ok (env_randbelow env)" and nj: "n_jobs = - 1 \<or> 0 < n_jobs"
        and cpu: "0 < env_cpu_count env"
      have a: "\<exists>l g'. DTWKNN_predict_single env clf q n_jobs g = Inr (l, g') \<and> l \<in> set modes"
        using random_choice_ok[OF rb ne, of g] qm
        by (simp add: predict_single_unfold[OF sel(2) nj] classify_def)
      have b: "\<exists>labels g'. DTWKNN_predict env clf Q n_jobs g worker_rng = Inr (labels, g')
                             \<and> length labels = length Q"
        by (rule predict_ok[OF sel(2) assms(3) kpos kX ok rb nj cpu])
      show "(\<exists>l g'. DTWKNN_predict_single env clf q n_jobs g = Inr (l, g') \<and> l \<in> set modes)
                   \<and> (\<exists>labels g'. DTWKNN_predict env clf Q n_jobs g worker_rng = Inr (labels, g')
                             \<and> length labels = length Q)"
        using a b by simp
    qed
    show "np_argpartition (env_argpartition env) (query_distances env clf X q) (knn_k clf)
              = Inr (env_argpartition env (query_distances env clf X q) (knn_k clf))
          \<and> list_all (\<lambda>i. i < length y) (neighbors env clf X q)
          \<and> map_err (py_nth y) (neighbors env clf X q) = Inr (neighbor_labels env clf X y q)
          \<and> (\<exists>modes. find_modes (env_argpartition env) (knn_k clf) y (query_distances env clf X q)
                        = Inr modes
                \<and> modes \<noteq> [] \<and> set modes \<subseteq> set (neighbor_labels env clf X y q)
                \<and> (randbelow_ok (env_randbelow env) \<and> (n_jobs = - 1 \<or> 0 < n_jobs)
                      \<and> 0 < env_cpu_count env \<longrightarrow>
                     (\<exists>l g'. DTWKNN_predict_single env clf q n_jobs g = Inr (l, g')
                             \<and> l \<in> set modes)
                   \<and> (\<exists>labels g'. DTWKNN_predict env clf Q n_jobs g worker_rng = Inr (labels, g')
                             \<and> length labels = length Q)))"
      using 0 1 2 fm ne sub run unfolding ds_def by blast
  qed
  show ?thesis using fit sel big small by blast
qed

text \<open>
  Claim C10 at concrete inputs: \<open>k = 1\<close> with three references, and \<open>k = 1\<close> with one, both
  with four jobs.
\<close>

theorem knn_k_against_reference_count_witness:
  "(0::int) < 1 \<and> length [0, 5, 9 :: nat] = length [''a'', ''b'', ''a'']
   \<and> and_then (DTWKNN_init 1 1) (\<lambda>c. DTWKNN_fit c [0, 5, 9 :: nat] [''a'', ''b'', ''a'']) = Inr knn_aba
   \<and> nat 1 < length [0, 5, 9 :: nat] \<and> argpartition_ok (env_argpartition abs_env)
   \<and> randbelow_ok (env_randbelow abs_env) \<and> 0 < env_cpu_count abs_env
   \<and> list_all (\<lambda>i. i < length [''a'', ''b'', ''a'']) (neighbors abs_env knn_aba [0, 5, 9] 5)
   \<and> find_modes (env_argpartition abs_env) (knn_k knn_aba) [''a'', ''b'', ''a'']
        (query_distances abs_env knn_aba [0, 5, 9] 5) = Inr [''b'']
   \<and> DTWKNN_predict_single abs_env knn_aba 5 4 [] = Inr (''b'', [])
   \<and> (\<exists>labels g'. DTWKNN_predict abs_env knn_aba [5, 0] 4 [] (\<lambda>_. []) = Inr (labels, g')
          \<and> length labels = length [5, 0 :: nat])
   \<and> and_then (DTWKNN_init 1 1) (\<lambda>c. DTWKNN_fit c [0 :: nat] [''a'']) = Inr knn_one
   \<and> length [0 :: nat] \<le> nat 1
   \<and> DTWKNN_predict_single abs_env knn_one 0 4 [] = Inl ValueError_kth_out_of_bounds
   \<and> DTWKNN_predict abs_env knn_one [0, 7] 4 [] (\<lambda>_. []) = Inl ValueError_kth_out_of_bounds"
proof -
  have f3: "and_then (DTWKNN_init 1 1) (\<lambda>c. DTWKNN_fit c [0, 5, 9 :: nat] [''a'', ''b'', ''a''])
            = Inr knn_aba"
    by (simp add: DTWKNN_init_def DTWKNN_fit_def observation_sequences_and_labels_def knn_aba_def)
  have f1: "and_then (DTWKNN_init 1 1) (\<lambda>c. DTWKNN_fit c [0 :: nat] [''a'']) = Inr knn_one"
    by (simp add: DTWKNN_init_def DTWKNN_fit_def observation_sequences_and_labels_def knn_one_def)
  have fm: "find_modes (env_argpartition abs_env) (knn_k knn_aba) [''a'', ''b'', ''a'']
        (query_distances abs_env knn_aba [0, 5, 9] 5) = Inr [''b'']"
    using aba_modes_5 by (simp add: query_modes_def)
  have ps: "DTWKNN_predict_single abs_env knn_aba 5 4 [] = Inr (''b'', [])"
    by (simp add: knn_eval knn_aba_def upt_rec)
  have a: "list_all (\<lambda>i. i < length [''a'', ''b'', ''a'']) (neighbors abs_env knn_aba [0, 5, 9] 5)
     \<and> (\<exists>labels g'. DTWKNN_predict abs_env knn_aba [5, 0] 4 [] (\<lambda>_. []) = Inr (labels, g')
          \<and> length labels = length [5, 0 :: nat])"
    using knn_k_against_reference_count[where k = 1 and radius = 1 and X = "[0, 5, 9 :: nat]"
        and y = "[''a'', ''b'', ''a'']" and n_jobs = 4 and env = abs_env and q = 5
        and g = "[]" and Q = "[5, 0]" and worker_rng = "\<lambda>_. []"] f3 abs_env_ok
    by auto
  have b: "DTWKNN_predict_single abs_env knn_one 0 4 [] = Inl ValueError_kth_out_of_bounds
     \<and> DTWKNN_predict abs_env knn_one [0, 7] 4 [] (\<lambda>_. []) = Inl ValueError_kth_out_of_bounds"
    using knn_k_against_reference_count[where k = 1 and radius = 1 and X = "[0 :: nat]"
        and y = "[''a'']" and n_jobs = 4 and env = abs_env and q = 0
        and g = "[]" and Q = "[7]" and worker_rng = "\<lambda>_. []"] f1 abs_env_ok
    by auto
  show ?thesis using f3 f1 fm ps a b abs_env_ok by simp
qed

section \<open>Parallel and serial prediction\<close>

lemmas hmm_eval =
  HMMClassifier_predict_def HMMClassifier_predict_single_def HMMClassifier_fit_def
  LabelEncoder_fit_def check_prior_def check_n_jobs_def get_priors_def and_then_def dict_of_def
  predict_scores_def chunk_predict_def batch_scores_def dict_get_def np_log_def np_argmax_def
  output_single_def output_batch_def inverse_transform_def py_nth_def const_model_def
  class_score_def

text \<open>
  Claim C4, as amended. For the ensemble classifier, \<^verbatim>\<open>predict\<close> on a batch gives the same
  result (labels and scores, or the same exception) for every admissible number of jobs as
  for one job: the chunks are contiguous and their score matrices are stacked in order. For
  the nearest-neighbour classifier the labels of the chunks are concatenated in order, and
  they are the labels of the serial run whenever every query of the batch has a single
  modal label; the tie-breaks of a parallel run are drawn in the worker processes, each
  from its own generator.
\<close>

theorem parallel_predict_equals_serial:
  assumes "0 < cpu_count" and "n_jobs = - 1 \<or> 0 < n_jobs"
    and "knn_data knn = Some (X, y)" and "0 < env_cpu_count env"
    and "randbelow_ok (env_randbelow env)"
    and "\<forall>q \<in> set Q. \<exists>l. query_modes env knn X y q = Inr [l]"
  shows "HMMClassifier_predict cpu_count clf S prior return_scores original_labels n_jobs
           = HMMClassifier_predict cpu_count clf S prior return_scores original_labels 1
       \<and> (\<exists>labels g1 g2.
             DTWKNN_predict env knn Q n_jobs g worker_rng = Inr (labels, g1)
           \<and> DTWKNN_predict env knn Q 1 g' worker_rng' = Inr (labels, g2))"
proof -
  define m where "m q = (THE l. query_modes env knn X y q = Inr [l])" for q
  have u: "\<forall>q \<in> set Q. query_modes env knn X y q = Inr [m q]"
  proof
    fix q assume "q \<in> set Q"
    then obtain l where l: "query_modes env knn X y q = Inr [l]" using assms(6) by blast
    then have "m q = l" unfolding m_def by (intro the_equality) simp_all
    then show "query_modes env knn X y q = Inr [m q]" using l by simp
  qed
  from knn_parallel_labels[OF assms(3) assms(2) assms(4) assms(5) u, of g worker_rng]
  obtain g1 where 1: "DTWKNN_predict env knn Q n_jobs g worker_rng = Inr (map m Q, g1)" ..
  from knn_parallel_labels[OF assms(3) _ assms(4) assms(5) u, of 1 g' worker_rng']
  obtain g2 where 2: "DTWKNN_predict env knn Q 1 g' worker_rng' = Inr (map m Q, g2)" by auto
  show ?thesis using hmm_parallel_eq[OF assms(1) assms(2)] 1 2 by blast
qed

text \<open>
  Claim C4 at a concrete input: a batch of two sequences and four jobs.
\<close>

theorem parallel_predict_equals_serial_witness:
  "(0::nat) < 4 \<and> ((4::int) = - 1 \<or> (0::int) < 4)
   \<and> knn_data knn_aba = Some ([0, 5, 9], [''a'', ''b'', ''a''])
   \<and> 0 < env_cpu_count abs_env \<and> randbelow_ok (env_randbelow abs_env)
   \<and> query_modes abs_env knn_aba [0, 5, 9] [''a'', ''b'', ''a''] 5 = Inr [''b'']
   \<and> query_modes abs_env knn_aba [0, 5, 9] [''a'', ''b'', ''a''] 0 = Inr [''a'']
   \<and> HMMClassifier_predict 4 ensemble_ba [(), ()] Uniform True True 4
       = HMMClassifier_predict 4 ensemble_ba [(), ()] Uniform True True 1
   \<and> (\<exists>labels g1 g2.
         DTWKNN_predict abs_env knn_aba [5, 0] 4 [3] (\<lambda>_. [8]) = Inr (labels, g1)
       \<and> DTWKNN_predict abs_env knn_aba [5, 0] 1 [3] (\<lambda>_. [8]) = Inr (labels, g2))"
proof -
  have d: "knn_data knn_aba = Some ([0, 5, 9], [''a'', ''b'', ''a''])"
    by (simp add: knn_aba_def)
  have u: "\<forall>q \<in> set [5, 0]. \<exists>l. query_modes abs_env knn_aba [0, 5, 9] [''a'', ''b'', ''a''] q = Inr [l]"
    using aba_modes_5 aba_modes_0 by simp
  have c: "(0::nat) < 4" and j: "(4::int) = - 1 \<or> (0::int) < 4" by simp_all
  from parallel_predict_equals_serial[OF c j d abs_env_ok(3) abs_env_ok(2) u,
      where clf = ensemble_ba and S = "[(), ()]" and prior = Uniform and return_scores = True
        and original_labels = True and g = "[3]" and g' = "[3]" and worker_rng = "\<lambda>_. [8]"
        and worker_rng' = "\<lambda>_. [8]"]
  show ?thesis using d abs_env_ok aba_modes_5 aba_modes_0 by simp
qed

text \<open>
  Claim C4 as stated fails for the nearest-neighbour classifier: on a query whose two
  neighbours have different labels, the serial run draws \<open>0\<close> from the generator of the
  calling process and the worker draws \<open>1\<close> from its own, and the labels differ.
\<close>

theorem parallel_predict_tie_counterexample:
  "DTWKNN_predict abs_env knn_tie [2] 1 [0] (\<lambda>_. [1]) = Inr ([''a''], [])
   \<and> DTWKNN_predict abs_env knn_tie [2] 4 [0] (\<lambda>_. [1]) = Inr ([''b''], [0])"
proof -
  have d: "knn_data knn_tie = Some ([0, 4, 100], [''a'', ''b'', ''c''])"
    by (simp add: knn_tie_def)
  have sp: "np_array_split [2::nat] 4 = Inr [[2], [], [], []]"
    by (simp add: np_array_split_def section_sizes_def numeral_3_eq_3)
  have en: "enumerate 0 [[2::nat], [], [], []] = [(0, [2]), (1, []), (2, []), (3, [])]"
    by (simp add: enumerate_eq_zip upt_rec)
  have s: "DTWKNN_predict abs_env knn_tie [2] 1 [0] (\<lambda>_. [1]) = Inr ([''a''], [])"
    by (simp add: knn_eval knn_tie_def upt_rec)
  have w: "classify abs_env knn_tie [0, 4, 100] [''a'', ''b'', ''c''] 2 [Suc 0]
           = Inr (''b'', [])"
    by (simp add: knn_eval knn_tie_def upt_rec)
  have p: "DTWKNN_predict abs_env knn_tie [2] 4 [0] (\<lambda>_. [1]) = Inr ([''b''], [0])"
    unfolding DTWKNN_predict_def
    by (simp add: d check_n_jobs_def sp en w)
  show ?thesis using s p by simp
qed

section \<open>Saving and loading\<close>

text \<open>
  Claim C1 at eleven reference sequences. \<^verbatim>\<open>save\<close> names the sequences \<open>0, ..., 10\<close>;
  \<^verbatim>\<open>load\<close> reads them back in the order of the names, in which \<open>10\<close> comes before \<open>2\<close>,
  while the labels keep their order. The loaded classifier pairs the last sequence with the
  third label, and predicts another label for a query equal to the last sequence.
\<close>

theorem save_load_reorders_references:
  "DTWKNN_save knn11 = Inr knn11_file \<and> DTWKNN_load knn11_file = Inr knn11_loaded
   \<and> knn11_loaded \<noteq> knn11
   \<and> DTWKNN_predict abs_env knn11 [100] 1 [] (\<lambda>_. []) = Inr ([''L10''], [])
   \<and> DTWKNN_predict abs_env knn11_loaded [100] 1 [] (\<lambda>_. []) = Inr ([''L2''], [])"
proof -
  have s: "DTWKNN_save knn11 = Inr knn11_file"
    by (simp add: DTWKNN_save_def knn11_def knn11_file_def create_dataset_def str.simps
        digit_char_def)
  have l: "DTWKNN_load knn11_file = Inr knn11_loaded"
    by (simp add: DTWKNN_load_def DTWKNN_init_def and_then_def h5_keys_def h5_get_def
        knn11_file_def knn11_loaded_def)
  have n: "knn11_loaded \<noteq> knn11" by (simp add: knn11_loaded_def knn11_def)
  have p: "DTWKNN_predict abs_env knn11 [100] 1 [] (\<lambda>_. []) = Inr ([''L10''], [])"
    by (simp add: knn_eval knn11_def upt_rec)
  have q: "DTWKNN_predict abs_env knn11_loaded [100] 1 [] (\<lambda>_. []) = Inr ([''L2''], [])"
    by (simp add: knn_eval knn11_loaded_def upt_rec)
  show ?thesis using s l n p q by simp
qed

section \<open>The decision of the ensemble\<close>

text \<open>
  Claim C2 at models fitted in the order c, a, b, where the classes a and b have the same,
  largest score: \<^verbatim>\<open>predict\<close> returns b. The position of the largest score in the order of
  the models is read as a position in the sorted labels.
\<close>

theorem tie_not_resolved_to_lower_label:
  "HMMClassifier_fit (models ensemble_cab) = Inr ensemble_cab
   \<and> get_priors ensemble_cab Uniform
       = Inr (dict_of [(''c'', 1 / 3), (''a'', 1 / 3), (''b'', 1 / 3)])
   \<and> class_score ensemble_cab (dict_of [(''c'', 1 / 3), (''a'', 1 / 3), (''b'', 1 / 3)]) () ''a''
       = Some (Fin (- 5 + ln (1 / 3)))
   \<and> class_score ensemble_cab (dict_of [(''c'', 1 / 3), (''a'', 1 / 3), (''b'', 1 / 3)]) () ''b''
       = Some (Fin (- 5 + ln (1 / 3)))
   \<and> class_score ensemble_cab (dict_of [(''c'', 1 / 3), (''a'', 1 / 3), (''b'', 1 / 3)]) () ''c''
       = Some (Fin (- 10 + ln (1 / 3)))
   \<and> HMMClassifier_predict_single ensemble_cab () Uniform True True 1
       = Inr (Labels_Scores (Decoded ''b'')
               [Fin (- 10 + ln (1 / 3)), Fin (- 5 + ln (1 / 3)), Fin (- 5 + ln (1 / 3))])
   \<and> HMMClassifier_predict 1 ensemble_cab [()] Uniform False True 1
       = Inr (Labels [Decoded ''b''])"
  by (simp add: hmm_eval ensemble_cab_def)

text \<open>
  Claim C3 at models fitted in the order b, a, where the class b has the larger score: each
  score is the log-likelihood plus the logarithm of the class prior, and \<^verbatim>\<open>predict\<close>
  returns a, the class with the smaller score.
\<close>

theorem predicted_label_not_the_best_class:
  "HMMClassifier_fit (models ensemble_ba) = Inr ensemble_ba
   \<and> get_priors ensemble_ba Uniform = Inr (dict_of [(''b'', 1 / 2), (''a'', 1 / 2)])
   \<and> class_score ensemble_ba (dict_of [(''b'', 1 / 2), (''a'', 1 / 2)]) () ''a''
       = Some (Fin (- 5 + ln (1 / 2)))
   \<and> class_score ensemble_ba (dict_of [(''b'', 1 / 2), (''a'', 1 / 2)]) () ''b''
       = Some (Fin (0 + ln (1 / 2)))
   \<and> score_less (Fin (- 5 + ln (1 / 2))) (Fin (0 + ln (1 / 2)))
   \<and> HMMClassifier_predict_single ensemble_ba () Uniform True True 1
       = Inr (Labels_Scores (Decoded ''a'') [Fin (0 + ln (1 / 2)), Fin (- 5 + ln (1 / 2))])
   \<and> HMMClassifier_predict 1 ensemble_ba [()] Uniform False True 1
       = Inr (Labels [Decoded ''a''])"
  by (simp add: hmm_eval ensemble_ba_def)

section \<open>Freezing and unfreezing\<close>

lemma HMM_freeze_freezes_only: "freezes_only HMM_freeze"
  by (auto simp add: freezes_only_def HMM_freeze_def)

text \<open>
  Claim C9. For both model variants \<^verbatim>\<open>unfreeze\<close> gives the result that \<^verbatim>\<open>freeze\<close> gives, for
  every parameter string, model and base-class \<^verbatim>\<open>freeze\<close>; so, the base-class \<^verbatim>\<open>freeze\<close>
  never making a parameter trainable, \<^verbatim>\<open>unfreeze\<close> makes no parameter trainable either.
\<close>

theorem unfreeze_is_freeze:
  "GaussianMixtureHMM_unfreeze super_freeze params self
     = GaussianMixtureHMM_freeze super_freeze params self
   \<and> MultinomialHMM_unfreeze super_freeze params self
     = MultinomialHMM_freeze super_freeze params self
   \<and> (freezes_only super_freeze \<longrightarrow>
        (\<forall>self'. GaussianMixtureHMM_unfreeze super_freeze params self = Inr self'
                  \<longrightarrow> set (trainable self') \<subseteq> set (trainable self))
      \<and> (\<forall>self'. MultinomialHMM_unfreeze super_freeze params self = Inr self'
                  \<longrightarrow> set (trainable self') \<subseteq> set (trainable self)))"
  unfolding GaussianMixtureHMM_unfreeze_def GaussianMixtureHMM_freeze_def
    MultinomialHMM_unfreeze_def MultinomialHMM_freeze_def freezes_only_def
  by blast

text \<open>
  Claim C9 at a concrete input: after freezing the means of a Gaussian mixture model,
  \<^verbatim>\<open>unfreeze\<close> of the means leaves them frozen.
\<close>

theorem unfreeze_is_freeze_witness:
  "freezes_only HMM_freeze
   \<and> GaussianMixtureHMM_freeze HMM_freeze (Some ''m'') \<lparr>trainable = ''stmcw''\<rparr>
       = Inr \<lparr>trainable = ''stcw''\<rparr>
   \<and> GaussianMixtureHMM_unfreeze HMM_freeze (Some ''m'') \<lparr>trainable = ''stcw''\<rparr>
       = Inr \<lparr>trainable = ''stcw''\<rparr>
   \<and> MultinomialHMM_unfreeze HMM_freeze (Some ''e'') \<lparr>trainable = ''st''\<rparr>
       = Inr \<lparr>trainable = ''st''\<rparr>
   \<and> set (trainable \<lparr>trainable = ''stcw''\<rparr>) \<subseteq> set (trainable \<lparr>trainable = ''stcw''\<rparr>)"
proof -
  have e: "GaussianMixtureHMM_unfreeze HMM_freeze (Some ''m'') \<lparr>trainable = ''stcw''\<rparr>
           = Inr \<lparr>trainable = ''stcw''\<rparr>"
    by (simp add: GaussianMixtureHMM_unfreeze_def HMM_freeze_def)
  have f: "GaussianMixtureHMM_freeze HMM_freeze (Some ''m'') \<lparr>trainable = ''stmcw''\<rparr>
       = Inr \<lparr>trainable = ''stcw''\<rparr>"
    by (simp add: GaussianMixtureHMM_freeze_def HMM_freeze_def)
  have m: "MultinomialHMM_unfreeze HMM_freeze (Some ''e'') \<lparr>trainable = ''st''\<rparr>
       = Inr \<lparr>trainable = ''st''\<rparr>"
    by (simp add: MultinomialHMM_unfreeze_def HMM_freeze_def)
  show ?thesis
    using unfreeze_is_freeze[of HMM_freeze "Some ''m''" "\<lparr>trainable = ''stcw''\<rparr>"]
      HMM_freeze_freezes_only e f m by simp
qed

section \<open>The ensemble fitted in sorted label order\<close>

lemma score_less_irrefl: "\<not> score_less a a"
  by (cases a) simp_all

lemma score_less_trans: "score_less a b \<Longrightarrow> score_less b c \<Longrightarrow> score_less a c"
  by (cases a; cases b; cases c) simp_all

lemma score_not_less_trans:
  "\<not> score_less a b \<Longrightarrow> \<not> score_less b c \<Longrightarrow> \<not> score_less a c"
  by (cases a; cases b; cases c) simp_all

lemma score_less_not_less: "score_less a b \<Longrightarrow> \<not> score_less c b \<Longrightarrow> score_less a c"
  by (cases a; cases b; cases c) simp_all

lemma argmax_from_spec:
  assumes "b < length pre" "pre ! b = v"
    and "\<forall>j<length pre. \<not> score_less v (pre ! j)"
    and "\<forall>j<b. score_less (pre ! j) v"
  shows "argmax_from xs (length pre) b v < length (pre @ xs)
       \<and> (\<forall>j<length (pre @ xs). \<not> score_less ((pre @ xs) ! argmax_from xs (length pre) b v)
                                                ((pre @ xs) ! j))
       \<and> (\<forall>j<argmax_from xs (length pre) b v.
             score_less ((pre @ xs) ! j) ((pre @ xs) ! argmax_from xs (length pre) b v))"
  using assms
proof (induction xs arbitrary: pre b v)
  case Nil
  then show ?case by simp
next
  case (Cons x xs)
  show ?case
  proof (cases "score_less v x")
    case True
    have 1: "length pre < length (pre @ [x])" by simp
    have 2: "(pre @ [x]) ! length pre = x" by simp
    have 3: "\<forall>j<length (pre @ [x]). \<not> score_less x ((pre @ [x]) ! j)"
    proof (intro allI impI)
      fix j assume "j < length (pre @ [x])"
      then consider "j < length pre" | "j = length pre" by fastforce
      then show "\<not> score_less x ((pre @ [x]) ! j)"
      proof cases
        case 1
        then have "\<not> score_less v (pre ! j)" using Cons.prems(3) by simp
        then have "\<not> score_less x (pre ! j)" using True score_less_trans by blast
        then show ?thesis using 1 by (simp add: nth_append)
      next
        case 2
        then show ?thesis by (simp add: score_less_irrefl)
      qed
    qed
    have 4: "\<forall>j<length pre. score_less ((pre @ [x]) ! j) x"
    proof (intro allI impI)
      fix j assume j: "j < length pre"
      then have "\<not> score_less v (pre ! j)" using Cons.prems(3) by simp
      then have "score_less (pre ! j) x"
        using True by (cases v; cases x; cases "pre ! j") simp_all
      then show "score_less ((pre @ [x]) ! j) x" using j by (simp add: nth_append)
    qed
    from Cons.IH[OF 1 2 3 4] True show ?thesis by simp
  next
    case False
    have 1: "b < length (pre @ [x])" using Cons.prems(1) by simp
    have 2: "(pre @ [x]) ! b = v" using Cons.prems(1,2) by (simp add: nth_append)
    have 3: "\<forall>j<length (pre @ [x]). \<not> score_less v ((pre @ [x]) ! j)"
      using Cons.prems(3) False by (auto simp add: nth_append less_Suc_eq)
    have 4: "\<forall>j<b. score_less ((pre @ [x]) ! j) v"
      using Cons.prems(1,4) by (simp add: nth_append)
    from Cons.IH[OF 1 2 3 4] False show ?thesis by simp
  qed
qed

lemma np_argmax_spec:
  assumes "np_argmax xs = Inr i"
  shows "i < length xs" "\<forall>j<length xs. \<not> score_less (xs ! i) (xs ! j)"
    "\<forall>j<i. score_less (xs ! j) (xs ! i)"
proof -
  from assms obtain x rest where xs: "xs = x # rest" and i: "i = argmax_from rest 1 0 x"
    by (cases xs) (auto simp add: np_argmax_def)
  have "argmax_from rest (length [x]) 0 x < length ([x] @ rest)
       \<and> (\<forall>j<length ([x] @ rest). \<not> score_less (([x] @ rest) ! argmax_from rest (length [x]) 0 x)
                                                (([x] @ rest) ! j))
       \<and> (\<forall>j<argmax_from rest (length [x]) 0 x.
             score_less (([x] @ rest) ! j) (([x] @ rest) ! argmax_from rest (length [x]) 0 x))"
    by (rule argmax_from_spec) (simp_all add: score_less_irrefl)
  then show "i < length xs" "\<forall>j<length xs. \<not> score_less (xs ! i) (xs ! j)"
    "\<forall>j<i. score_less (xs ! j) (xs ! i)"
    using xs i by simp_all
qed

lemma LabelEncoder_fit_sorted:
  "sorted ys \<Longrightarrow> distinct ys \<Longrightarrow> LabelEncoder_fit ys = ys"
  by (simp add: LabelEncoder_fit_def sorted_sort_id)

lemma map_err_keys:
  assumes "map_err f xs = Inr kvs" and "\<And>x kv. f x = Inr kv \<Longrightarrow> fst kv = key x"
  shows "map fst kvs = map key xs"
  using assms(1)
proof (induction xs arbitrary: kvs)
  case Nil
  then show ?case by simp
next
  case (Cons x xs)
  then obtain kv rest where kv: "f x = Inr kv" and rest: "map_err f xs = Inr rest"
    and kvs: "kvs = kv # rest"
    by (cases "f x"; cases "map_err f xs") auto
  show ?case using Cons.IH[OF rest] assms(2)[OF kv] kvs by simp
qed

lemma dict_of_defined: "k \<in> set (map fst kvs) \<Longrightarrow> \<exists>v. dict_of kvs k = Some v"
  by (cases "dict_of kvs k") (auto simp add: dict_of_def map_of_eq_None_iff)

lemma get_priors_keys:
  assumes "get_priors clf prior = Inr priors" "model \<in> set (models clf)"
  shows "\<exists>p. priors (label model) = Some p"
proof (cases prior)
  case Frequency
  with assms(1) obtain kvs where
    m: "map_err (\<lambda>model. if sum_list (map n_seqs (models clf)) = 0 then Inl ZeroDivisionError
            else Inr (label model, real (n_seqs model) / real (sum_list (map n_seqs (models clf)))))
          (models clf) = Inr kvs" and p: "priors = dict_of kvs"
    by (auto simp add: get_priors_def Let_def and_then_def split: sum.splits)
  have "map fst kvs = map label (models clf)"
    by (rule map_err_keys[OF m]) (auto split: if_splits)
  then show ?thesis using assms(2) p dict_of_defined[of "label model" kvs] by simp
next
  case Uniform
  with assms(1) have "priors = dict_of (map (\<lambda>model. (label model, 1 / real (length (models clf))))
                          (models clf))"
    by (simp add: get_priors_def)
  then show ?thesis using assms(2)
      dict_of_defined[of "label model" "map (\<lambda>model. (label model, 1 / real (length (models clf)))) (models clf)"]
    by (simp add: o_def)
next
  case (Explicit pr)
  with assms(1) obtain kvs where
    m: "map_err (\<lambda>model. and_then (transform (classes clf) (label model))
                                 (\<lambda>i. and_then (py_nth pr i) (\<lambda>v. Inr (label model, v))))
          (models clf) = Inr kvs" and p: "priors = dict_of kvs"
    by (auto simp add: get_priors_def and_then_def split: sum.splits)
  have "map fst kvs = map label (models clf)"
    by (rule map_err_keys[OF m]) (auto simp add: and_then_def split: sum.splits)
  then show ?thesis using assms(2) p dict_of_defined[of "label model" kvs] by simp
qed

lemma predict_scores_eq:
  assumes "get_priors clf prior = Inr priors"
  shows "predict_scores clf x priors =
         Inr (map (\<lambda>model. score_add (forward model x) (np_log (the (priors (label model)))))
                (models clf))"
  unfolding predict_scores_def
proof (rule map_err_all_Inr)
  fix model assume "model \<in> set (models clf)"
  from get_priors_keys[OF assms this] obtain p where "priors (label model) = Some p" ..
  then show "and_then (dict_get priors (label model))
               (\<lambda>p. Inr (score_add (forward model x) (np_log p))) =
             Inr (score_add (forward model x) (np_log (the (priors (label model)))))"
    by (simp add: dict_get_def)
qed

lemma filter_key_unique:
  "distinct (map f xs) \<Longrightarrow> x \<in> set xs \<Longrightarrow> filter (\<lambda>z. f z = f x) xs = [x]"
proof (induction xs)
  case Nil
  then show ?case by simp
next
  case (Cons a xs)
  show ?case
  proof (cases "a = x")
    case True
    have "f x \<notin> f ` set xs" using Cons.prems(1) True by simp
    then have "\<forall>z \<in> set xs. f z \<noteq> f x" by (metis imageI)
    then have "filter (\<lambda>z. f z = f x) xs = []" by (simp add: filter_empty_conv)
    then show ?thesis using True by simp
  next
    case False
    then have x: "x \<in> set xs" using Cons.prems(2) by simp
    then have "f x \<in> f ` set xs" by simp
    moreover have "f a \<notin> f ` set xs" using Cons.prems(1) by simp
    ultimately have "f a \<noteq> f x" by metis
    then show ?thesis using Cons.IH x Cons.prems(1) by simp
  qed
qed

lemma class_score_of_model:
  assumes "distinct (map label (models clf))" "get_priors clf prior = Inr priors"
    "model \<in> set (models clf)"
  shows "class_score clf priors x (label model) =
         Some (score_add (forward model x) (np_log (the (priors (label model)))))"
proof -
  from get_priors_keys[OF assms(2,3)] obtain p where "priors (label model) = Some p" ..
  then show ?thesis using filter_key_unique[OF assms(1,3)]
    by (simp add: class_score_def)
qed

text \<open>
  Where the decision rule does hold. When the models are fitted in the sorted order of
  their labels, without duplicates, \<^verbatim>\<open>predict\<close> returns the label of a class with the
  largest score, and of those the first in sorted label order.
\<close>

lemma ensemble_decision_sorted_fit:
  assumes fit: "HMMClassifier_fit ms = Inr clf"
    and srt: "sorted (map label ms)" "distinct (map label ms)"
    and cp: "check_prior clf prior = Inr ()" and gp: "get_priors clf prior = Inr priors"
    and nj: "n_jobs = - 1 \<or> 0 < n_jobs"
  shows "\<exists>i scores.
      HMMClassifier_predict_single clf x prior True True n_jobs
        = Inr (Labels_Scores (Decoded (label (ms ! i))) scores)
      \<and> i < length ms \<and> length scores = length ms
      \<and> (\<forall>j<length ms. class_score clf priors x (label (ms ! j)) = Some (scores ! j))
      \<and> (\<forall>j<length ms. \<not> score_less (scores ! i) (scores ! j))
      \<and> (\<forall>j<i. score_less (scores ! j) (scores ! i))"
proof -
  have ne: "ms \<noteq> []" and m: "models clf = ms" and c: "classes clf = map label ms"
    using fit srt by (auto simp add: HMMClassifier_fit_def LabelEncoder_fit_sorted split: if_splits)
  define scores where
    "scores = map (\<lambda>model. score_add (forward model x) (np_log (the (priors (label model))))) ms"
  have ps: "predict_scores clf x priors = Inr scores"
    using predict_scores_eq[OF gp, of x] by (simp add: scores_def m)
  have ls: "length scores = length ms" by (simp add: scores_def)
  then have "scores \<noteq> []" using ne by auto
  then obtain i where am: "np_argmax scores = Inr i"
    by (cases scores) (auto simp add: np_argmax_def)
  note spec = np_argmax_spec[OF am]
  have i: "i < length ms" using spec(1) ls by simp
  have out: "output_single clf i scores True True = Inr (Labels_Scores (Decoded (label (ms ! i))) scores)"
    using i by (simp add: output_single_def inverse_transform_def c py_nth_def)
  have p: "HMMClassifier_predict_single clf x prior True True n_jobs
        = Inr (Labels_Scores (Decoded (label (ms ! i))) scores)"
    using cp gp ps am out nj by (simp add: HMMClassifier_predict_single_def check_n_jobs_def)
  have cs: "\<forall>j<length ms. class_score clf priors x (label (ms ! j)) = Some (scores ! j)"
  proof (intro allI impI)
    fix j assume j: "j < length ms"
    then have "ms ! j \<in> set (models clf)" using m by simp
    from class_score_of_model[OF _ gp this, of x] srt(2) m j
    show "class_score clf priors x (label (ms ! j)) = Some (scores ! j)"
      by (simp add: scores_def)
  qed
  show ?thesis using p i ls cs spec(2,3) by auto
qed

section \<open>The round trip with at most ten references\<close>

lemma foldl_create_dataset:
  "foldl (\<lambda>grp (i, x). create_dataset grp (str i) x) acc ixs =
     acc @ map (\<lambda>(i, x). (str i, x)) ixs"
  by (induction ixs arbitrary: acc) (auto simp add: create_dataset_def)

lemma digit_names: "map str [0..<10] = map (\<lambda>c. [c]) ''0123456789''"
  by (simp add: upt_rec str.simps digit_char_def)

lemma digit_names_sorted: "sorted (map str [0..<10])" "distinct (map str [0..<10])"
  unfolding digit_names by simp_all

lemma names_prefix: "n \<le> 10 \<Longrightarrow> map str [0..<n] = take n (map str [0..<10])"
  by (simp add: take_map del: upt_Suc)

lemma h5_get_all:
  assumes "distinct ks" "length ks = length X"
  shows "map_err (h5_get (zip ks X)) ks = Inr X"
proof -
  have "map_err (h5_get (zip ks X)) ks = Inr (map (\<lambda>k. the (map_of (zip ks X) k)) ks)"
  proof (rule map_err_all_Inr)
    fix k assume "k \<in> set ks"
    then obtain i where i: "i < length ks" "k = ks ! i" by (auto simp add: in_set_conv_nth)
    then have "map_of (zip ks X) k = Some (X ! i)"
      using map_of_zip_nth[of ks X i] assms by simp
    then show "h5_get (zip ks X) k = Inr (the (map_of (zip ks X) k))"
      by (simp add: h5_get_def)
  qed
  moreover have "map (\<lambda>k. the (map_of (zip ks X) k)) ks = X"
  proof (rule nth_equalityI)
    show "length (map (\<lambda>k. the (map_of (zip ks X) k)) ks) = length X" using assms by simp
    fix i assume "i < length (map (\<lambda>k. the (map_of (zip ks X) k)) ks)"
    then have i: "i < length ks" by simp
    then have "map_of (zip ks X) (ks ! i) = Some (X ! i)"
      using map_of_zip_nth[of ks X i] assms by simp
    then show "map (\<lambda>k. the (map_of (zip ks X) k)) ks ! i = X ! i" using i by simp
  qed
  ultimately show ?thesis by simp
qed

text \<open>
  Where the round trip does hold. With at most ten reference sequences the names
  \<open>0, ..., 9\<close> are read back in the order in which they were written, and loading a saved
  classifier gives the classifier back.
\<close>

lemma save_load_up_to_ten:
  assumes "knn_data clf = Some (X, y)" "length X \<le> 10" "0 < knn_k clf" "0 < knn_radius clf"
  shows "and_then (DTWKNN_save clf) DTWKNN_load = Inr clf"
proof -
  define ks where "ks = map str [0..<length X]"
  have "foldl (\<lambda>grp (i, x). create_dataset grp (str i) x) [] (enumerate 0 X) =
        map (\<lambda>(i, x). (str i, x)) (enumerate 0 X)"
    by (simp only: foldl_create_dataset append_Nil)
  also have "\<dots> = zip ks X"
    by (simp add: enumerate_eq_zip ks_def zip_map1)
  finally have grp:
    "foldl (\<lambda>grp (i, x). create_dataset grp (str i) x) [] (enumerate 0 X) = zip ks X" .
  have pre: "ks = take (length X) (map str [0..<10])"
    unfolding ks_def using assms(2) by (rule names_prefix)
  have s: "sorted ks" and d: "distinct ks"
    unfolding pre using digit_names_sorted by (simp_all add: sorted_wrt_take del: upt_Suc)
  have l: "length ks = length X" by (simp add: ks_def)
  have keys: "h5_keys (zip ks X) = ks"
    using s l by (simp add: h5_keys_def sorted_sort_id)
  have "DTWKNN_save clf = Inr \<lparr>params_k = knn_k clf, params_radius = knn_radius clf,
               data_X = zip ks X, data_y = y\<rparr>"
    using assms(1) grp by (simp add: DTWKNN_save_def)
  moreover have "DTWKNN_load \<lparr>params_k = knn_k clf, params_radius = knn_radius clf,
               data_X = zip ks X, data_y = y\<rparr> = Inr clf"
    using assms(1,3,4) h5_get_all[OF d l] keys
    by (simp add: DTWKNN_load_def DTWKNN_init_def)
  ultimately show ?thesis by simp
qed

end
